theory Spec2Isabelle
  imports Main "HOL-Library.AList" "HOL-Library.Sublist"
begin

section \<open>The workspace runner of \<open>running/run.py\<close>\<close>

text \<open>
  The program prepares a workspace directory, stages artifacts into it, runs one external
  command there with its output appended to a log file, and reports the paths that
  appeared during the run. This theory embeds the program as HOL functions over an
  explicit model of what it touches: path strings, a file-system tree, the process's
  working directory, the console, and the child process.

  Python strings are modelled by their UTF-8 encoding: a \<^typ>\<open>string\<close> is a list of
  bytes. All literals of the program are ASCII.
\<close>

subsection \<open>Exceptions\<close>

text \<open>
  Every exception that the program or the library calls it makes can raise is a value.
  \<open>ValueError\<close> and \<open>FileNotFoundError\<close> carry their message, so that the errors the
  program raises itself can be told from those of the operating system.
\<close>

datatype error =
    ValueError string
  | FileNotFoundError string
  | FileExistsError string
  | NotADirectoryError string
  | IsADirectoryError string
  | SameFileError string
  | OSError string
  | IndexError
  | AttributeError
  | TypeError
  | UnicodeDecodeError
  | CalledProcessError int string

subsection \<open>Characters and Python string helpers\<close>

definition SLASH :: char where "SLASH = CHR ''/''"
definition BACKSLASH :: char where "BACKSLASH = CHR 0x5C"
definition DQUOTE :: char where "DQUOTE = CHR 0x22"
definition SQUOTE :: char where "SQUOTE = CHR 0x27"
definition NL :: char where "NL = CHR 0x0A"
definition TAB :: char where "TAB = CHR 0x09"
definition CR :: char where "CR = CHR 0x0D"
definition ESC :: char where "ESC = CHR 0x1B"

text \<open>\<open>sep.join(parts)\<close>.\<close>

fun str_join :: "string \<Rightarrow> string list \<Rightarrow> string" where
  "str_join sep [] = []"
| "str_join sep [x] = x"
| "str_join sep (x # y # ys) = x @ sep @ str_join sep (y # ys)"

text \<open>\<open>s.split(c)\<close> for a one-character separator: every occurrence splits, empty
  fields are kept, and the result is never empty.\<close>

fun str_split :: "char \<Rightarrow> string \<Rightarrow> string list" where
  "str_split c [] = [[]]"
| "str_split c (x # xs) =
     (if x = c then [] # str_split c xs
      else (case str_split c xs of
              [] \<Rightarrow> [[x]]
            | f # fs \<Rightarrow> (x # f) # fs))"

definition startswith :: "string \<Rightarrow> string \<Rightarrow> bool" where
  "startswith s p = (take (length p) s = p)"

definition endswith :: "string \<Rightarrow> string \<Rightarrow> bool" where
  "endswith s p = (length p \<le> length s \<and> drop (length s - length p) s = p)"

subsection \<open>\<open>os.path\<close> on POSIX\<close>

text \<open>\<open>os.path.join(a, b)\<close>: an absolute \<open>b\<close> (or an empty \<open>a\<close>) discards \<open>a\<close>;
  otherwise exactly one separator stands between the two.\<close>

definition path_join :: "string \<Rightarrow> string \<Rightarrow> string" where
  "path_join a b =
     (if startswith b [SLASH] \<or> a = [] then b
      else if endswith a [SLASH] then a @ b
      else a @ [SLASH] @ b)"

text \<open>\<open>os.path.basename(p)\<close>: what follows the last slash.\<close>

definition basename :: "string \<Rightarrow> string" where
  "basename p = last (str_split SLASH p)"

definition isabs :: "string \<Rightarrow> bool" where
  "isabs p = startswith p [SLASH]"

text \<open>The component loop of \<open>os.path.normpath\<close>: empty and \<open>.\<close> components are
  dropped, \<open>..\<close> removes the component before it, except at the front of a relative path
  and after another \<open>..\<close>, where it is kept, and at the root, where it is dropped.\<close>

fun norm_comps :: "bool \<Rightarrow> string list \<Rightarrow> string list \<Rightarrow> string list" where
  "norm_comps initial_slashes new_comps [] = new_comps"
| "norm_comps initial_slashes new_comps (cmp # comps) =
     (if cmp = [] \<or> cmp = ''.'' then norm_comps initial_slashes new_comps comps
      else if cmp \<noteq> ''..'' \<or> (\<not> initial_slashes \<and> new_comps = [])
                \<or> (new_comps \<noteq> [] \<and> last new_comps = ''..'')
        then norm_comps initial_slashes (new_comps @ [cmp]) comps
      else if new_comps \<noteq> [] then norm_comps initial_slashes (butlast new_comps) comps
      else norm_comps initial_slashes new_comps comps)"

definition normpath :: "string \<Rightarrow> string" where
  "normpath path =
     (if path = [] then ''.''
      else
        let initial_slashes =
              (if startswith path [SLASH] then
                 (if startswith path [SLASH, SLASH] \<and> \<not> startswith path [SLASH, SLASH, SLASH]
                  then 2 else 1)
               else (0::nat));
            comps = norm_comps (initial_slashes \<noteq> 0) [] (str_split SLASH path);
            p = replicate initial_slashes SLASH @ str_join [SLASH] comps
        in if p = [] then ''.'' else p)"

text \<open>\<open>os.path.abspath(path)\<close>; the first argument is what \<open>os.getcwd()\<close> returns at
  the time of the call.\<close>

definition abspath :: "string \<Rightarrow> string \<Rightarrow> string" where
  "abspath getcwd path = normpath (if isabs path then path else path_join getcwd path)"

subsection \<open>\<open>shlex.split\<close>\<close>

text \<open>
  \<open>shlex.split(s)\<close> runs the \<open>shlex\<close> tokenizer in POSIX mode with
  \<open>whitespace_split\<close> set and no comment characters. Its token loop is a state machine
  over the characters of \<open>s\<close>: the state is a blank (between tokens), \<open>a\<close> (inside a
  word), a quote character (inside quotes) or the escape character (after a backslash).
  With these settings the tokenizer never pushes a character back, so the scan below
  consumes one character per step and emits the tokens in order. Bytes above ASCII are
  neither whitespace, quote nor escape, so scanning the UTF-8 bytes gives the encoding of
  what scanning the code points gives.
\<close>

datatype lexstate = Blank | InWord | InQuote char | InEscape

definition whitespace :: "char set" where
  "whitespace = {CHR '' '', TAB, CR, NL}"

definition quotes :: "char set" where
  "quotes = {SQUOTE, DQUOTE}"

definition wordchars :: "char set" where
  "wordchars = set (''abcdfeghijklmnopqrstuvwxyz'' @ ''ABCDEFGHIJKLMNOPQRSTUVWXYZ0123456789_'')"

text \<open>What \<open>read_token\<close> hands back: in POSIX mode an empty token that was never
  quoted is the end-of-input marker.\<close>

definition at_eof :: "bool \<Rightarrow> string \<Rightarrow> string list" where
  "at_eof quoted tok = (if \<not> quoted \<and> tok = [] then [] else [tok])"

fun shlex_scan :: "lexstate \<Rightarrow> lexstate \<Rightarrow> bool \<Rightarrow> string \<Rightarrow> string \<Rightarrow> error + string list" where
  "shlex_scan st escapedstate quoted tok [] =
     (case st of
        Blank \<Rightarrow> Inr (at_eof quoted tok)
      | InWord \<Rightarrow> Inr (at_eof quoted tok)
      | InQuote q \<Rightarrow> Inl (ValueError ''No closing quotation'')
      | InEscape \<Rightarrow> Inl (ValueError ''No escaped character''))"
| "shlex_scan st escapedstate quoted tok (c # cs) =
     (case st of
        Blank \<Rightarrow>
          if c \<in> whitespace then
            (if tok \<noteq> [] \<or> quoted
             then map_sum id ((#) tok) (shlex_scan Blank Blank False [] cs)
             else shlex_scan Blank escapedstate quoted tok cs)
          else if c = BACKSLASH then shlex_scan InEscape InWord quoted tok cs
          else if c \<in> wordchars then shlex_scan InWord escapedstate quoted [c] cs
          else if c \<in> quotes then shlex_scan (InQuote c) escapedstate quoted tok cs
          else shlex_scan InWord escapedstate quoted [c] cs
      | InQuote q \<Rightarrow>
          if c = q then shlex_scan InWord escapedstate True tok cs
          else if c = BACKSLASH \<and> q = DQUOTE then shlex_scan InEscape (InQuote q) True tok cs
          else shlex_scan (InQuote q) escapedstate True (tok @ [c]) cs
      | InEscape \<Rightarrow>
          (let tok' = (case escapedstate of
                         InQuote q \<Rightarrow> if c \<noteq> BACKSLASH \<and> c \<noteq> q then tok @ [BACKSLASH] else tok
                       | _ \<Rightarrow> tok)
           in shlex_scan escapedstate escapedstate quoted (tok' @ [c]) cs)
      | InWord \<Rightarrow>
          if c \<in> whitespace then
            (if tok \<noteq> [] \<or> quoted
             then map_sum id ((#) tok) (shlex_scan Blank Blank False [] cs)
             else shlex_scan Blank escapedstate quoted tok cs)
          else if c \<in> quotes then shlex_scan (InQuote c) escapedstate quoted tok cs
          else if c = BACKSLASH then shlex_scan InEscape InWord quoted tok cs
          else shlex_scan InWord escapedstate quoted (tok @ [c]) cs)"

definition shlex_split :: "string \<Rightarrow> error + string list" where
  "shlex_split s = shlex_scan Blank Blank False [] s"

subsection \<open>Decoding the child's standard error\<close>

text \<open>
  \<open>bytes.decode()\<close> decodes UTF-8 strictly and raises \<open>UnicodeDecodeError\<close> on a
  byte sequence that is not well-formed UTF-8. Since strings are modelled by their UTF-8
  encoding, decoding returns the bytes themselves when they are well formed.
\<close>

definition byte_in :: "nat \<Rightarrow> nat \<Rightarrow> char \<Rightarrow> bool" where
  "byte_in lo hi c = (lo \<le> (of_char c :: nat) \<and> (of_char c :: nat) \<le> hi)"

fun utf8_valid :: "string \<Rightarrow> bool" where
  "utf8_valid [] = True"
| "utf8_valid (c # cs) =
     (if byte_in 0x00 0x7F c then utf8_valid cs
      else if byte_in 0xC2 0xDF c then
        (case cs of c1 # r \<Rightarrow> byte_in 0x80 0xBF c1 \<and> utf8_valid r | _ \<Rightarrow> False)
      else if byte_in 0xE0 0xEF c then
        (case cs of
           c1 # c2 # r \<Rightarrow>
             byte_in (if byte_in 0xE0 0xE0 c then 0xA0 else 0x80)
                     (if byte_in 0xED 0xED c then 0x9F else 0xBF) c1
             \<and> byte_in 0x80 0xBF c2 \<and> utf8_valid r
         | _ \<Rightarrow> False)
      else if byte_in 0xF0 0xF4 c then
        (case cs of
           c1 # c2 # c3 # r \<Rightarrow>
             byte_in (if byte_in 0xF0 0xF0 c then 0x90 else 0x80)
                     (if byte_in 0xF4 0xF4 c then 0x8F else 0xBF) c1
             \<and> byte_in 0x80 0xBF c2 \<and> byte_in 0x80 0xBF c3 \<and> utf8_valid r
         | _ \<Rightarrow> False)
      else False)"

definition decode :: "string \<Rightarrow> error + string" where
  "decode b = (if utf8_valid b then Inr b else Inl UnicodeDecodeError)"

subsection \<open>The file system\<close>

text \<open>
  The file system is a tree. A regular file has a content and a metadata stamp
  (permission bits and modification time, which \<open>shutil.copy2\<close> carries over); a
  directory has named entries; a symbolic link has a target string. A canonical path is
  the list of names from the root to a node, through directories only.
\<close>

type_synonym meta = "nat \<times> nat"

datatype node = File string meta | Dir "(string \<times> node) list" | Symlink string

type_synonym cpath = "string list"

fun get_node :: "node \<Rightarrow> cpath \<Rightarrow> node option" where
  "get_node n [] = Some n"
| "get_node (Dir es) (x # xs) =
     (case map_of es x of None \<Rightarrow> None | Some ch \<Rightarrow> get_node ch xs)"
| "get_node (File c m) (x # xs) = None"
| "get_node (Symlink t) (x # xs) = None"

datatype kind = KNone | KFile | KDir | KLink string

definition kind_of :: "node option \<Rightarrow> kind" where
  "kind_of n = (case n of
       None \<Rightarrow> KNone
     | Some (File c m) \<Rightarrow> KFile
     | Some (Dir es) \<Rightarrow> KDir
     | Some (Symlink t) \<Rightarrow> KLink t)"

definition kind_at :: "node \<Rightarrow> cpath \<Rightarrow> kind" where
  "kind_at r cp = kind_of (get_node r cp)"

text \<open>\<open>put_node new cp r\<close> stores \<open>new\<close> at the canonical path \<open>cp\<close> of the tree
  \<open>r\<close>: it replaces the node there, or adds an entry to the parent directory. Nothing
  changes when the parent is not an existing directory.\<close>

fun put_node :: "node \<Rightarrow> cpath \<Rightarrow> node \<Rightarrow> node" where
  "put_node new [] old = new"
| "put_node new (x # xs) (Dir es) =
     (case map_of es x of
        None \<Rightarrow> (if xs = [] then Dir (AList.update x new es) else Dir es)
      | Some ch \<Rightarrow> Dir (AList.update x (put_node new xs ch) es))"
| "put_node new (x # xs) (File c m) = File c m"
| "put_node new (x # xs) (Symlink t) = Symlink t"

text \<open>
  Path resolution as the kernel does it, from a directory \<open>cur\<close> along the components
  of a path string. Empty and \<open>.\<close> components stay in place, \<open>..\<close> goes to the parent
  (the root is its own parent), a symbolic link is replaced by the components of its
  target. The link in the last component is followed only when \<open>follow\<close> is set. A
  component that is not the last one must be a directory, so a path with a trailing
  slash names a directory or nothing. A missing last component is returned as the place
  where a node could be created. The number of links followed is bounded, as in Linux
  (\<open>ELOOP\<close>).
\<close>

definition ENOENT :: "string \<Rightarrow> error" where
  "ENOENT p = FileNotFoundError (''[Errno 2] No such file or directory: '' @ p)"

definition ENOTDIR :: "string \<Rightarrow> error" where
  "ENOTDIR p = NotADirectoryError (''[Errno 20] Not a directory: '' @ p)"

definition EEXIST :: "string \<Rightarrow> error" where
  "EEXIST p = FileExistsError (''[Errno 17] File exists: '' @ p)"

definition EISDIR :: "string \<Rightarrow> error" where
  "EISDIR p = IsADirectoryError (''[Errno 21] Is a directory: '' @ p)"

definition ELOOP :: "string \<Rightarrow> error" where
  "ELOOP p = OSError (''[Errno 40] Too many levels of symbolic links: '' @ p)"

fun namei :: "nat \<Rightarrow> node \<Rightarrow> cpath \<Rightarrow> string list \<Rightarrow> bool \<Rightarrow> error + cpath" where
  "namei fuel r cur [] follow = Inr cur"
| "namei fuel r cur (c # cs) follow =
     (if c = [] then namei fuel r cur cs follow
      else if c = ''.'' then namei fuel r cur cs follow
      else if c = ''..'' then namei fuel r (butlast cur) cs follow
      else (case kind_at r (cur @ [c]) of
              KNone \<Rightarrow> (if cs = [] then Inr (cur @ [c]) else Inl (ENOENT c))
            | KFile \<Rightarrow> (if cs = [] then Inr (cur @ [c]) else Inl (ENOTDIR c))
            | KDir \<Rightarrow> namei fuel r (cur @ [c]) cs follow
            | KLink t \<Rightarrow>
                (if cs = [] \<and> \<not> follow then Inr (cur @ [c])
                 else (case fuel of
                         0 \<Rightarrow> Inl (ELOOP c)
                       | Suc k \<Rightarrow>
                           namei k r (if isabs t then [] else cur)
                             (str_split SLASH t @ cs) follow))))"

definition MAXSYMLINKS :: nat where "MAXSYMLINKS = 40"

subsection \<open>The world\<close>

text \<open>
  What the program reads and changes: the file-system tree, the process's working
  directory (the kernel keeps it as a directory, here its canonical path), the lines
  printed to the console, and the argument vectors of the child processes launched so
  far.
\<close>

record world =
  root :: node
  cwd :: cpath
  console :: "string list"
  launched :: "string list list"

datatype proc_outcome = LaunchFailed error | Exited int string string

text \<open>
  What the program takes from outside and cannot compute: the two readings of
  \<open>time.time()\<close> as the f-strings render them, the name \<open>tempfile.mkdtemp\<close> picks, the
  metadata of a newly created file, the behaviour of the child process (whether it
  starts, its exit code, what it writes to standard output and standard error, and the
  file system it leaves), the order in which \<open>list\<close> enumerates a set, and the text
  that an f-string renders a list of strings to.
\<close>

record env =
  time_log :: string
  time_workspace :: string
  mkdtemp_name :: string
  new_meta :: meta
  spawn :: "world \<Rightarrow> string list \<Rightarrow> string \<Rightarrow> proc_outcome \<times> node"
  list_of_set :: "string set \<Rightarrow> string list"
  str_of_list :: "string list \<Rightarrow> string"

text \<open>A call returns a value or raises, and leaves a world either way.\<close>

type_synonym 'a io = "world \<Rightarrow> (error + 'a) \<times> world"

definition io_return :: "'a \<Rightarrow> 'a io" where
  "io_return x = (\<lambda>w. (Inr x, w))"

definition io_raise :: "error \<Rightarrow> 'a io" where
  "io_raise e = (\<lambda>w. (Inl e, w))"

definition io_bind :: "'a io \<Rightarrow> ('a \<Rightarrow> 'b io) \<Rightarrow> 'b io" where
  "io_bind m f = (\<lambda>w. case m w of (Inl e, w') \<Rightarrow> (Inl e, w') | (Inr x, w') \<Rightarrow> f x w')"

definition io_then :: "'a io \<Rightarrow> 'b io \<Rightarrow> 'b io" where
  "io_then m k = io_bind m (\<lambda>_. k)"

text \<open>\<open>try: m except ...: handler\<close>, where \<open>handler e\<close> is \<open>None\<close> for an exception
  that no \<open>except\<close> clause matches.\<close>

definition io_except :: "'a io \<Rightarrow> (error \<Rightarrow> 'a io option) \<Rightarrow> 'a io" where
  "io_except m handler =
     (\<lambda>w. case m w of
             (Inr x, w') \<Rightarrow> (Inr x, w')
           | (Inl e, w') \<Rightarrow> (case handler e of None \<Rightarrow> (Inl e, w') | Some h \<Rightarrow> h w'))"

text \<open>\<open>try: m finally: fin\<close>: \<open>fin\<close> runs whatever \<open>m\<close> did; an exception of \<open>fin\<close>
  replaces the outcome of \<open>m\<close>, otherwise the outcome of \<open>m\<close> stands.\<close>

definition io_finally :: "'a io \<Rightarrow> unit io \<Rightarrow> 'a io" where
  "io_finally m fin =
     (\<lambda>w. case m w of
             (res, w') \<Rightarrow> (case fin w' of (Inl e, w'') \<Rightarrow> (Inl e, w'') | (Inr u, w'') \<Rightarrow> (res, w'')))"

subsection \<open>Operating-system calls\<close>

definition resolve :: "bool \<Rightarrow> string \<Rightarrow> world \<Rightarrow> error + cpath" where
  "resolve follow p w =
     (if p = [] then Inl (ENOENT p)
      else
        let start = (if isabs p then [] else cwd w)
        in if kind_at (root w) start = KDir
           then namei MAXSYMLINKS (root w) start (str_split SLASH p) follow
           else Inl (ENOENT p))"

text \<open>\<open>os.stat\<close> (links followed) and what \<open>os.path\<close> derives from it:
  \<open>exists\<close> and \<open>isdir\<close> answer \<open>False\<close> where \<open>os.stat\<close> raises.\<close>

definition os_stat :: "world \<Rightarrow> string \<Rightarrow> error + node" where
  "os_stat w p =
     (case resolve True p w of
        Inl e \<Rightarrow> Inl e
      | Inr cp \<Rightarrow> (case get_node (root w) cp of None \<Rightarrow> Inl (ENOENT p) | Some n \<Rightarrow> Inr n))"

text \<open>The content of the regular file that a path names (links followed), if it
  names one.\<close>

definition file_content :: "world \<Rightarrow> string \<Rightarrow> string option" where
  "file_content w p = (case os_stat w p of Inr (File c m) \<Rightarrow> Some c | _ \<Rightarrow> None)"

definition exists :: "world \<Rightarrow> string \<Rightarrow> bool" where
  "exists w p = (case os_stat w p of Inl e \<Rightarrow> False | Inr n \<Rightarrow> True)"

definition isdir :: "world \<Rightarrow> string \<Rightarrow> bool" where
  "isdir w p = (case os_stat w p of Inr (Dir es) \<Rightarrow> True | _ \<Rightarrow> False)"

text \<open>\<open>os.path.samefile\<close> as \<open>shutil\<close> uses it: false where either \<open>os.stat\<close>
  raises.\<close>

definition samefile :: "world \<Rightarrow> string \<Rightarrow> string \<Rightarrow> bool" where
  "samefile w a b =
     (case (resolve True a w, resolve True b w) of
        (Inr x, Inr y) \<Rightarrow> x = y \<and> exists w a \<and> exists w b
      | _ \<Rightarrow> False)"

definition getcwd :: "world \<Rightarrow> string" where
  "getcwd w = SLASH # str_join [SLASH] (cwd w)"

definition os_chdir :: "string \<Rightarrow> unit io" where
  "os_chdir p =
     (\<lambda>w. case resolve True p w of
             Inl e \<Rightarrow> (Inl e, w)
           | Inr cp \<Rightarrow>
               (case kind_at (root w) cp of
                  KDir \<Rightarrow> (Inr (), w\<lparr>cwd := cp\<rparr>)
                | KNone \<Rightarrow> (Inl (ENOENT p), w)
                | _ \<Rightarrow> (Inl (ENOTDIR p), w)))"

text \<open>\<open>os.mkdir(p)\<close>: trailing slashes do not count; the link in the last
  component is not followed, so anything at that place is in the way.\<close>

definition rstrip_sep :: "string \<Rightarrow> string" where
  "rstrip_sep s = rev (dropWhile (\<lambda>c. c = SLASH) (rev s))"

definition mkdir_path :: "string \<Rightarrow> string" where
  "mkdir_path p = (if rstrip_sep p = [] then p else rstrip_sep p)"

definition os_mkdir :: "string \<Rightarrow> unit io" where
  "os_mkdir p =
     (\<lambda>w. case resolve False (mkdir_path p) w of
             Inl e \<Rightarrow> (Inl e, w)
           | Inr cp \<Rightarrow>
               (case get_node (root w) cp of
                  Some n \<Rightarrow> (Inl (EEXIST p), w)
                | None \<Rightarrow> (Inr (), w\<lparr>root := put_node (Dir []) cp (root w)\<rparr>)))"

definition os_symlink :: "string \<Rightarrow> string \<Rightarrow> unit io" where
  "os_symlink src dst =
     (\<lambda>w. if src = [] then (Inl (ENOENT src), w)
           else case resolve False dst w of
             Inl e \<Rightarrow> (Inl e, w)
           | Inr cp \<Rightarrow>
               (case get_node (root w) cp of
                  Some n \<Rightarrow> (Inl (EEXIST dst), w)
                | None \<Rightarrow> (Inr (), w\<lparr>root := put_node (Symlink src) cp (root w)\<rparr>)))"

text \<open>\<open>os.path.split(p)\<close>: the tail is what follows the last slash, the head what
  precedes it, without its trailing slashes unless it consists of slashes only.\<close>

definition path_split :: "string \<Rightarrow> string \<times> string" where
  "path_split p =
     (let tail = basename p;
          head = take (length p - length tail) p
      in (if head \<noteq> [] \<and> head \<noteq> replicate (length head) SLASH then rstrip_sep head else head,
          tail))"

text \<open>The head and tail that \<open>os.makedirs\<close> works with: a path that ends in a slash
  is split once more.\<close>

definition makedirs_split :: "string \<Rightarrow> string \<times> string" where
  "makedirs_split name =
     (if snd (path_split name) = [] then path_split (fst (path_split name))
      else path_split name)"

lemma length_rstrip_sep: "length (rstrip_sep s) \<le> length s"
  unfolding rstrip_sep_def
  by (metis length_dropWhile_le length_rev)

lemma length_fst_path_split: "length (fst (path_split p)) \<le> length p"
  using length_rstrip_sep [of "take (length p - length (basename p)) p"]
  by (auto simp: path_split_def Let_def)

lemma length_basename: "length (basename p) \<le> length p"
proof -
  have "length (last (str_split c p)) \<le> length p" for c
    by (induction p) (auto split: list.splits)
  then show ?thesis by (simp add: basename_def)
qed

lemma path_split_shorter:
  "snd (path_split p) \<noteq> [] \<Longrightarrow> length (fst (path_split p)) < length p"
proof -
  assume "snd (path_split p) \<noteq> []"
  then have t: "basename p \<noteq> []" by (simp add: path_split_def Let_def)
  let ?h = "take (length p - length (basename p)) p"
  have "length ?h < length p"
    using t length_basename [of p] by (cases p) auto
  moreover have "length (fst (path_split p)) \<le> length ?h"
    using length_rstrip_sep [of ?h] by (simp add: path_split_def Let_def)
  ultimately show ?thesis by simp
qed

lemma makedirs_split_shorter:
  "snd (makedirs_split name) \<noteq> [] \<Longrightarrow> length (fst (makedirs_split name)) < length name"
  using path_split_shorter [of name] path_split_shorter [of "fst (path_split name)"]
        length_fst_path_split [of name]
  by (auto simp: makedirs_split_def split: if_splits)

text \<open>\<open>os.makedirs(name)\<close> with \<open>exist_ok=False\<close>: the missing ancestors first (a
  \<open>FileExistsError\<close> from that call is passed over), then \<open>os.mkdir(name)\<close>, whose
  errors are raised.\<close>

function os_makedirs :: "string \<Rightarrow> world \<Rightarrow> (error + unit) \<times> world" where
  "os_makedirs name w =
     (if snd (makedirs_split name) = [] then os_mkdir name w
      else if fst (makedirs_split name) = [] then os_mkdir name w
      else if exists w (fst (makedirs_split name)) then os_mkdir name w
      else
        (case os_makedirs (fst (makedirs_split name)) w of
           (Inl (FileExistsError m), w1) \<Rightarrow>
             (if snd (makedirs_split name) = ''.'' then (Inr (), w1) else os_mkdir name w1)
         | (Inl e, w1) \<Rightarrow> (Inl e, w1)
         | (Inr u, w1) \<Rightarrow>
             (if snd (makedirs_split name) = ''.'' then (Inr (), w1) else os_mkdir name w1)))"
  by pat_completeness auto
termination
  by (relation "measure (\<lambda>(name, w). length name)") (auto simp: makedirs_split_shorter)

declare os_makedirs.simps [simp del]

text \<open>
  \<open>open(path, "a")\<close>: the file is created, empty, when the path (links followed) names
  nothing in an existing directory; a directory cannot be opened for writing. The file
  object is modelled by the canonical path of the file it is open on; writing through
  it appends, and writes to a file that is no longer at that place are lost to the tree.
  A write does not touch the metadata stamp.
\<close>

definition open_append :: "env \<Rightarrow> string \<Rightarrow> cpath io" where
  "open_append E path =
     (\<lambda>w. case resolve True path w of
             Inl e \<Rightarrow> (Inl e, w)
           | Inr cp \<Rightarrow>
               (case get_node (root w) cp of
                  Some (File c m) \<Rightarrow> (Inr cp, w)
                | Some (Dir es) \<Rightarrow> (Inl (EISDIR path), w)
                | Some (Symlink t) \<Rightarrow> (Inl (ELOOP path), w)
                | None \<Rightarrow>
                    (Inr cp, w\<lparr>root := put_node (File [] (new_meta E)) cp (root w)\<rparr>)))"

definition fd_write :: "cpath \<Rightarrow> string \<Rightarrow> unit io" where
  "fd_write fd data =
     (\<lambda>w. case get_node (root w) fd of
             Some (File c m) \<Rightarrow> (Inr (), w\<lparr>root := put_node (File (c @ data) m) fd (root w)\<rparr>)
           | _ \<Rightarrow> (Inr (), w))"

definition py_print :: "string \<Rightarrow> unit io" where
  "py_print s = (\<lambda>w. (Inr (), w\<lparr>console := console w @ [s]\<rparr>))"

text \<open>
  \<open>shutil.copy2(src, dst)\<close>: into \<open>dst\<close> when that is a directory; refuses to copy a
  file onto itself; opens the source for reading, which fails on a directory; opens the
  destination for writing (truncating it, links followed); copies the bytes and then the
  metadata.
\<close>

definition shutil_copy2 :: "string \<Rightarrow> string \<Rightarrow> unit io" where
  "shutil_copy2 src dst0 =
     (\<lambda>w. let dst = (if isdir w dst0 then path_join dst0 (basename src) else dst0)
           in if samefile w src dst then (Inl (SameFileError src), w)
              else case os_stat w src of
                Inl e \<Rightarrow> (Inl e, w)
              | Inr (Dir es) \<Rightarrow> (Inl (EISDIR src), w)
              | Inr (Symlink t) \<Rightarrow> (Inl (ELOOP src), w)
              | Inr (File content m) \<Rightarrow>
                  (case resolve True dst w of
                     Inl e \<Rightarrow> (Inl e, w)
                   | Inr cp \<Rightarrow>
                       (case get_node (root w) cp of
                          Some (Dir es) \<Rightarrow> (Inl (EISDIR dst), w)
                        | Some (Symlink t) \<Rightarrow> (Inl (ELOOP dst), w)
                        | Some (File c' m') \<Rightarrow>
                            (Inr (), w\<lparr>root := put_node (File content m) cp (root w)\<rparr>)
                        | None \<Rightarrow>
                            (Inr (), w\<lparr>root := put_node (File content m) cp (root w)\<rparr>))))"

text \<open>\<open>tempfile.mkdtemp()\<close>: makes the directory whose name the environment picked
  and returns its absolute path.\<close>

definition mkdtemp :: "env \<Rightarrow> string io" where
  "mkdtemp E =
     io_then (os_mkdir (mkdtemp_name E))
       (\<lambda>w. (Inr (abspath (getcwd w) (mkdtemp_name E)), w))"

text \<open>
  \<open>os.walk(top)\<close>, top-down, links not followed, errors ignored: for every directory
  reached, its path as built from \<open>top\<close> by \<open>os.path.join\<close>, the names of its entries
  that are directories (a link to a directory counts), and the names of the others. It
  descends into the entries that are directories themselves, not into links.
\<close>

definition entry_is_dir :: "world \<Rightarrow> cpath \<Rightarrow> string \<times> node \<Rightarrow> bool" where
  "entry_is_dir w cp e =
     (case snd e of
        Dir es \<Rightarrow> True
      | File c m \<Rightarrow> False
      | Symlink t \<Rightarrow>
          (case namei MAXSYMLINKS (root w) cp [fst e] True of
             Inl err \<Rightarrow> False
           | Inr cp' \<Rightarrow> kind_at (root w) cp' = KDir))"

fun walk_node :: "world \<Rightarrow> cpath \<Rightarrow> string \<Rightarrow> node \<Rightarrow> (string \<times> string list \<times> string list) list" where
  "walk_node w cp top_dir (Dir es) =
     (top_dir, map fst (filter (entry_is_dir w cp) es),
           map fst (filter (\<lambda>e. \<not> entry_is_dir w cp e) es))
     # concat (map (\<lambda>e. case snd e of
                           Dir es' \<Rightarrow> walk_node w (cp @ [fst e]) (path_join top_dir (fst e)) (snd e)
                         | _ \<Rightarrow> []) es)"
| "walk_node w cp top_dir (File c m) = []"
| "walk_node w cp top_dir (Symlink t) = []"

definition os_walk :: "world \<Rightarrow> string \<Rightarrow> (string \<times> string list \<times> string list) list" where
  "os_walk w top_dir =
     (case resolve True top_dir w of
        Inl e \<Rightarrow> []
      | Inr cp \<Rightarrow> (case get_node (root w) cp of None \<Rightarrow> [] | Some n \<Rightarrow> walk_node w cp top_dir n))"

text \<open>
  \<open>subprocess.run(argv, cwd=dir, stdout=log_file, stderr=PIPE, check=True)\<close>: the
  child leaves a file system behind and writes its standard output through the open log
  file; a child that cannot be started raises what the launch raised; a non-zero exit
  code raises \<open>CalledProcessError\<close>, which carries the captured standard error.
\<close>

definition subprocess_run :: "env \<Rightarrow> string list \<Rightarrow> string \<Rightarrow> cpath \<Rightarrow> unit io" where
  "subprocess_run E argv dir log_file =
     (\<lambda>w. case spawn E w argv dir of
             (LaunchFailed e, r') \<Rightarrow> (Inl e, w\<lparr>root := r', launched := launched w @ [argv]\<rparr>)
           | (Exited code out err, r') \<Rightarrow>
               (case fd_write log_file out (w\<lparr>root := r', launched := launched w @ [argv]\<rparr>) of
                  (u, w') \<Rightarrow>
                    if code = 0 then (Inr (), w') else (Inl (CalledProcessError code err), w')))"

section \<open>The program\<close>

subsection \<open>Configuration and the runner object\<close>

text \<open>
  The configuration is a dictionary. \<open>cfg_log_dir\<close> is \<open>None\<close> when the key
  \<open>log_dir\<close> is absent, \<open>Some None\<close> when it is present with the value \<open>None\<close>
  (which is what the command line stores when \<open>--log-dir\<close> is not given), and
  \<open>Some (Some d)\<close> for a string. The program reads the other keys with \<open>get\<close> and
  tests the result for truth, so an absent key, \<open>None\<close> and \<open>False\<close> are one case:
  \<open>cfg_artifacts\<close> is \<open>None\<close> for an absent key or \<open>None\<close>, and the three flags are
  \<open>False\<close> for an absent key.
\<close>

record config =
  cfg_log_dir :: "string option option"
  cfg_artifacts :: "string list option"
  cfg_symlink_to_artifacts :: bool
  cfg_verbose :: bool
  cfg_persist :: bool

record runner =
  self_command :: string
  self_dir :: "string option"
  self_config :: "config option"
  self_log_filename :: "string option"

text \<open>Python's truth test on an optional string: \<open>None\<close> and the empty string are
  false.\<close>

definition truthy :: "string option \<Rightarrow> bool" where
  "truthy s = (case s of None \<Rightarrow> False | Some x \<Rightarrow> x \<noteq> [])"

subsection \<open>\<open>Runner.check_and_create_dir\<close>\<close>

definition check_and_create_dir :: "string \<Rightarrow> unit io" where
  "check_and_create_dir d =
     (\<lambda>w. if exists w d then
             (if \<not> isdir w d
              then (Inl (ValueError (d @ '' exists but is not a directory.'')), w)
              else (Inr (), w))
           else os_makedirs d w)"

subsection \<open>\<open>Runner.log_message\<close>\<close>

text \<open>The method first reads \<open>log_dir\<close> from the configuration into a local that it
  never uses; what remains of that is the \<open>AttributeError\<close> of a missing
  configuration. It appends the message and a newline to the log file and, when
  \<open>verbose\<close> is set, prints the message, wrapped in the colour's escape sequence when
  a colour is given.\<close>

definition log_message :: "env \<Rightarrow> runner \<Rightarrow> string \<Rightarrow> string option \<Rightarrow> unit io" where
  "log_message E self message color =
     (case self_config self of
        None \<Rightarrow> io_raise AttributeError
      | Some c \<Rightarrow>
          (case self_log_filename self of
             None \<Rightarrow> io_raise TypeError
           | Some log_filename \<Rightarrow>
               io_then
                 (io_bind (open_append E log_filename)
                    (\<lambda>log_file. fd_write log_file (message @ [NL])))
                 (if cfg_verbose c then
                    (if truthy color
                     then py_print ([ESC] @ ''['' @ the color @ ''m'' @ message @ [ESC] @ ''[0m'')
                     else py_print message)
                  else io_return ())))"

subsection \<open>\<open>Runner.initialize\<close>\<close>

text \<open>Lines 54 to 58: the log directory. The first argument is the value of the local
  \<open>cwd\<close>.\<close>

definition resolve_log_dir :: "string \<Rightarrow> config \<Rightarrow> string" where
  "resolve_log_dir cwd_str c =
     (case (case cfg_log_dir c of None \<Rightarrow> Some cwd_str | Some v \<Rightarrow> v) of
        None \<Rightarrow> abspath cwd_str (path_join cwd_str ''work'')
      | Some d \<Rightarrow> path_join cwd_str d)"

definition log_file_name :: "env \<Rightarrow> string \<Rightarrow> string" where
  "log_file_name E d = path_join d (''run_log_'' @ time_log E @ ''.txt'')"

text \<open>Lines 67 to 77: the workspace directory. An explicit directory is checked and
  used; otherwise a named directory under the log directory (\<open>persist\<close>) or a temporary
  directory is made, and the process changes into it.\<close>

definition setup_workspace :: "env \<Rightarrow> config \<Rightarrow> string \<Rightarrow> runner \<Rightarrow> runner io" where
  "setup_workspace E c d self =
     (if truthy (self_dir self) then
        io_then (check_and_create_dir (the (self_dir self))) (io_return self)
      else if cfg_persist c then
        (let ws = path_join d (''run_workspace_'' @ time_workspace E)
         in io_then (check_and_create_dir ws)
              (io_then (os_chdir ws) (io_return (self\<lparr>self_dir := Some ws\<rparr>))))
      else
        io_bind (mkdtemp E)
          (\<lambda>ws. io_then (os_chdir ws) (io_return (self\<lparr>self_dir := Some ws\<rparr>))))"

text \<open>Lines 81 to 92: the loop over the artifacts.\<close>

fun stage_artifacts :: "config \<Rightarrow> string \<Rightarrow> string \<Rightarrow> string list \<Rightarrow> unit io" where
  "stage_artifacts c cwd_str ws [] = io_return ()"
| "stage_artifacts c cwd_str ws (artifact # rest) =
     (\<lambda>w. let source_path = abspath (getcwd w) (path_join cwd_str artifact);
               dest_path = path_join ws (basename artifact)
           in if exists w source_path then
                io_then
                  (if cfg_symlink_to_artifacts c then os_symlink source_path dest_path
                   else shutil_copy2 source_path dest_path)
                  (stage_artifacts c cwd_str ws rest) w
              else
                (Inl (FileNotFoundError
                        (''Source file or directory not found: '' @ source_path)), w))"

text \<open>Lines 80 to 95: the artifacts are staged when the list is there and not empty;
  then the first message is logged.\<close>

definition finish_initialize :: "env \<Rightarrow> config \<Rightarrow> string \<Rightarrow> runner \<Rightarrow> runner io" where
  "finish_initialize E c cwd_str self =
     io_then
       (case cfg_artifacts c of
          None \<Rightarrow> io_return ()
        | Some arts \<Rightarrow> stage_artifacts c cwd_str (the (self_dir self)) arts)
       (io_then
          (log_message E self (''Workspace initiated at '' @ the (self_dir self)) (Some ''32''))
          (io_return self))"

text \<open>Lines 54 to 77: the log directory is checked or made, the name of the log file
  is fixed, and the workspace is set up.\<close>

definition prepare :: "env \<Rightarrow> config \<Rightarrow> string \<Rightarrow> runner \<Rightarrow> runner io" where
  "prepare E c cwd_str self =
     (let d = resolve_log_dir cwd_str c
      in io_then (check_and_create_dir d)
           (setup_workspace E c d (self\<lparr>self_log_filename := Some (log_file_name E d)\<rparr>)))"

definition initialize :: "env \<Rightarrow> runner \<Rightarrow> runner io" where
  "initialize E self =
     (\<lambda>w. let cwd_str = getcwd w
           in case self_config self of
                None \<Rightarrow> (Inl AttributeError, w)
              | Some c \<Rightarrow>
                  io_bind (prepare E c cwd_str self) (finish_initialize E c cwd_str) w)"

text \<open>\<open>Runner.__init__\<close>: the constructor stores its arguments and initializes.\<close>

definition Runner :: "env \<Rightarrow> string \<Rightarrow> string option \<Rightarrow> config option \<Rightarrow> runner io" where
  "Runner E command directory cfg =
     initialize E
       \<lparr>self_command = command, self_dir = directory, self_config = cfg,
        self_log_filename = None\<rparr>"

subsection \<open>\<open>Runner.run\<close>\<close>

text \<open>The two set comprehensions over \<open>os.walk(self.dir)\<close>.\<close>

definition walk_files :: "world \<Rightarrow> string \<Rightarrow> string set" where
  "walk_files w d =
     set (concat (map (\<lambda>(r, dirs, files). map (path_join r) files) (os_walk w d)))"

definition walk_dirs :: "world \<Rightarrow> string \<Rightarrow> string set" where
  "walk_dirs w d =
     set (concat (map (\<lambda>(r, dirs, files). map (path_join r) dirs) (os_walk w d)))"

text \<open>The \<open>try\<close> block: open the log, run the child, write the success line.\<close>

definition run_body :: "env \<Rightarrow> string \<Rightarrow> string \<Rightarrow> string list \<Rightarrow> unit io" where
  "run_body E log_filename d split_cmd =
     io_bind (open_append E log_filename)
       (\<lambda>log_file.
          io_then (subprocess_run E split_cmd d log_file)
            (fd_write log_file (''Command executed successfully.'' @ [NL])))"

text \<open>The \<open>except subprocess.CalledProcessError\<close> clause.\<close>

definition run_handler :: "env \<Rightarrow> runner \<Rightarrow> error \<Rightarrow> unit io option" where
  "run_handler E self e =
     (case e of
        CalledProcessError code err \<Rightarrow>
          Some (io_then (log_message E self ''Command terminated with error:'' (Some ''31''))
                  (case decode err of
                     Inl e' \<Rightarrow> io_raise e'
                   | Inr text \<Rightarrow> log_message E self text (Some ''31'')))
      | _ \<Rightarrow> None)"

text \<open>The \<open>finally\<close> block: the second walk, the two differences, the three log
  messages.\<close>

definition changed :: "string set \<Rightarrow> string set \<Rightarrow> string set" where
  "changed after_run before_run = after_run - before_run"

definition run_finally :: "env \<Rightarrow> runner \<Rightarrow> string \<Rightarrow> string set \<Rightarrow> string set \<Rightarrow> unit io" where
  "run_finally E self d files_before dirs_before =
     (\<lambda>w. let changed_files = changed (walk_files w d) files_before;
               changed_dirs = changed (walk_dirs w d) dirs_before
           in io_then (log_message E self ''Command side effects:'' (Some ''32''))
                (io_then
                   (log_message E self
                      ([TAB] @ ''Changed or created files:'' @ [NL, TAB, TAB]
                         @ str_of_list E (list_of_set E changed_files)) (Some ''36''))
                   (log_message E self
                      ([TAB] @ ''Changed or created directories:'' @ [NL, TAB, TAB]
                         @ str_of_list E (list_of_set E changed_dirs)) (Some ''36''))) w)"

definition run :: "env \<Rightarrow> runner \<Rightarrow> unit io" where
  "run E self =
     (case (self_log_filename self, self_dir self) of
        (Some log_filename, Some d) \<Rightarrow>
          io_then (io_bind (open_append E log_filename) (\<lambda>f. fd_write f []))
            (\<lambda>w. let files_before = walk_files w d;
                      dirs_before = walk_dirs w d
                  in case shlex_split (self_command self) of
                       Inl e \<Rightarrow> (Inl e, w)
                     | Inr split_cmd \<Rightarrow>
                         io_finally
                           (io_except (run_body E log_filename d split_cmd) (run_handler E self))
                           (run_finally E self d files_before dirs_before) w)
      | _ \<Rightarrow> io_raise TypeError)"

subsection \<open>\<open>main\<close>\<close>

text \<open>What \<open>argparse\<close> hands to \<open>main\<close>: the options and the remaining tokens.\<close>

record args =
  args_log_dir :: "string option"
  args_artifacts :: "string list option"
  args_symlink_to_artifacts :: bool
  args_verbose :: bool
  args_persist :: bool
  args_command :: "string list"

definition config_of_args :: "args \<Rightarrow> config" where
  "config_of_args a =
     \<lparr>cfg_log_dir = Some (args_log_dir a), cfg_artifacts = args_artifacts a,
      cfg_symlink_to_artifacts = args_symlink_to_artifacts a,
      cfg_verbose = args_verbose a, cfg_persist = args_persist a\<rparr>"

text \<open>Lines 149 and 150: a leading \<open>--\<close> is dropped and the tokens are joined with
  single spaces; \<open>args.command[0]\<close> raises \<open>IndexError\<close> on an empty list.\<close>

definition command_of_tokens :: "string list \<Rightarrow> error + string" where
  "command_of_tokens toks =
     (case toks of
        [] \<Rightarrow> Inl IndexError
      | t # ts \<Rightarrow> Inr (str_join '' '' (if t = ''--'' then ts else t # ts)))"

definition main :: "env \<Rightarrow> args \<Rightarrow> unit io" where
  "main E a =
     (let cfg = config_of_args a
      in case command_of_tokens (args_command a) of
           Inl e \<Rightarrow> io_raise e
         | Inr command \<Rightarrow> io_bind (Runner E command None (Some cfg)) (run E))"

section \<open>A concrete machine\<close>

text \<open>
  A small world on which the program is run below: a home directory with a regular file
  \<open>f\<close> and a directory \<open>d\<close>, and an empty \<open>/tmp\<close>. The process starts in
  \<open>/home/u\<close>. The environment is fixed up to the behaviour of the child process.
\<close>

definition ex_root :: node where
  "ex_root =
     Dir [(''home'', Dir [(''u'', Dir [(''f'', File ''x'' (420, 1)),
                                       (''d'', Dir [(''g'', File ''y'' (420, 2))])])]),
          (''tmp'', Dir [])]"

definition ex_world :: world where
  "ex_world = \<lparr>root = ex_root, cwd = [''home'', ''u''], console = [], launched = []\<rparr>"

definition ex_list_of_set :: "string set \<Rightarrow> string list" where
  "ex_list_of_set S = filter (\<lambda>p. p \<in> S) [''/tmp/tmpabc/new'', ''/tmp/tmpabc/sub'']"

definition ex_env :: "(world \<Rightarrow> string list \<Rightarrow> string \<Rightarrow> proc_outcome \<times> node) \<Rightarrow> env" where
  "ex_env sp =
     \<lparr>time_log = ''1.5'', time_workspace = ''1.6'', mkdtemp_name = ''/tmp/tmpabc'',
      new_meta = (420, 7), spawn = sp, list_of_set = ex_list_of_set,
      str_of_list = str_join '', ''\<rparr>"

definition ex_args :: args where
  "ex_args =
     \<lparr>args_log_dir = None, args_artifacts = None, args_symlink_to_artifacts = False,
      args_verbose = False, args_persist = False, args_command = [''false'']\<rparr>"

text \<open>A child that leaves the file system alone, writes \<open>out\<close> to its standard
  output and the given bytes to its standard error, and exits with the given code.\<close>

definition ex_child :: "int \<Rightarrow> string \<Rightarrow> world \<Rightarrow> string list \<Rightarrow> string \<Rightarrow> proc_outcome \<times> node" where
  "ex_child code err w argv d = (Exited code ''out'' err, root w)"








text \<open>The same world with a symbolic link \<open>l\<close> in \<open>/home/u\<close> that points to
  nothing.\<close>

definition ex_link_world :: world where
  "ex_link_world =
     ex_world\<lparr>root := put_node (Symlink ''nowhere'') [''home'', ''u'', ''l''] ex_root\<rparr>"

section \<open>Properties\<close>

subsection \<open>The file-system tree\<close>

text \<open>Looking up a path that is the concatenation of two paths; what lies below a
  missing node or a leaf; the parent of a node is a directory.\<close>

lemma get_node_append:
  "get_node r (xs @ ys) = (case get_node r xs of None \<Rightarrow> None | Some n \<Rightarrow> get_node n ys)"
proof (induction xs arbitrary: r)
  case Nil
  then show ?case by simp
next
  case (Cons x xs)
  then show ?case by (cases r) (auto split: option.splits)
qed

lemma get_node_below_None: "get_node r cp = None \<Longrightarrow> get_node r (cp @ ys) = None"
  by (simp add: get_node_append)

lemma get_node_below_leaf:
  "kind_at r cp \<noteq> KDir \<Longrightarrow> ys \<noteq> [] \<Longrightarrow> get_node r (cp @ ys) = None"
  by (cases ys; cases "get_node r cp")
     (auto simp: get_node_append kind_at_def kind_of_def split: node.splits)

lemma kind_at_parent_dir:
  "kind_at r (xs @ ys) \<noteq> KNone \<Longrightarrow> ys \<noteq> [] \<Longrightarrow> kind_at r xs = KDir"
proof (rule ccontr)
  assume a: "kind_at r (xs @ ys) \<noteq> KNone" "ys \<noteq> []" "kind_at r xs \<noteq> KDir"
  then have "get_node r (xs @ ys) = None" by (intro get_node_below_leaf)
  with a show False by (simp add: kind_at_def kind_of_def)
qed

lemma kind_at_butlast_dir: "kind_at r cp = KDir \<Longrightarrow> kind_at r (butlast cp) = KDir"
proof (cases "cp = []")
  case True
  assume "kind_at r cp = KDir"
  with True show ?thesis by simp
next
  case False
  assume d: "kind_at r cp = KDir"
  from False have "cp = butlast cp @ [last cp]" by simp
  then have "kind_at r (butlast cp @ [last cp]) \<noteq> KNone" using d by simp
  then show ?thesis by (rule kind_at_parent_dir) simp
qed

lemma kind_at_root_dir: "kind_at r cp = KDir \<Longrightarrow> kind_at r [] = KDir"
  using kind_at_parent_dir [of r "[]" cp] by (cases "cp = []") auto

lemma get_put_same:
  "cp = [] \<or> kind_at r (butlast cp) = KDir \<Longrightarrow> get_node (put_node n cp r) cp = Some n"
proof (induction cp arbitrary: r)
  case Nil
  then show ?case by simp
next
  case (Cons x xs)
  show ?case
  proof (cases xs)
    case Nil
    with Cons.prems obtain es where "r = Dir es"
      by (cases r) (auto simp: kind_at_def kind_of_def)
    with Nil show ?thesis by (auto simp: update_conv' split: option.splits)
  next
    case (Cons y ys)
    with Cons.prems have k: "kind_at r (x # butlast xs) = KDir" by simp
    then obtain es where r: "r = Dir es"
      by (cases r) (auto simp: kind_at_def kind_of_def)
    with k obtain ch where ch: "map_of es x = Some ch" "kind_at ch (butlast xs) = KDir"
      by (auto simp: kind_at_def kind_of_def split: option.splits)
    from Cons.IH [of ch] ch have "get_node (put_node n xs ch) xs = Some n" by simp
    with r ch show ?thesis by (simp add: update_conv')
  qed
qed

lemma kind_put_other:
  "\<not> prefix cp x \<Longrightarrow> kind_at (put_node n cp r) x = kind_at r x"
proof (induction cp arbitrary: r x)
  case Nil
  then show ?case by simp
next
  case (Cons c cs)
  show ?case
  proof (cases r)
    case (Dir es)
    show ?thesis
    proof (cases x)
      case Nil
      with Dir show ?thesis by (auto simp: kind_at_def kind_of_def split: option.splits)
    next
      case (Cons y ys)
      show ?thesis
      proof (cases "y = c")
        case False
        with Dir Cons show ?thesis
          by (auto simp: kind_at_def update_conv' split: option.splits)
      next
        case True
        with Cons Cons.prems have np: "\<not> prefix cs ys" by simp
        show ?thesis
        proof (cases "map_of es c")
          case None
          with np Dir Cons True show ?thesis
            by (cases cs) (auto simp: kind_at_def update_conv')
        next
          case (Some ch)
          from Cons.IH [OF np, of ch] Some Dir Cons True show ?thesis
            by (simp add: kind_at_def update_conv')
        qed
      qed
    qed
  qed (simp_all)
qed

text \<open>One tree extends another when every node of the first is still there with the
  same kind (a directory keeps being a directory, a file a file, a link its target).
  Creating a node where none was, and overwriting a file by a file, extend the tree.\<close>

definition ext :: "node \<Rightarrow> node \<Rightarrow> bool" where
  "ext r r' = (\<forall>x. kind_at r x \<noteq> KNone \<longrightarrow> kind_at r' x = kind_at r x)"



lemma ext_put_new: "kind_at r cp = KNone \<Longrightarrow> ext r (put_node n cp r)"
  unfolding ext_def
proof (intro allI impI)
  fix x
  assume n: "kind_at r cp = KNone" and x: "kind_at r x \<noteq> KNone"
  have "\<not> prefix cp x"
  proof
    assume "prefix cp x"
    then obtain ys where "x = cp @ ys" by (auto simp: prefix_def)
    moreover from n have "get_node r cp = None"
      by (auto simp: kind_at_def kind_of_def split: option.splits node.splits)
    ultimately have "get_node r x = None" by (simp add: get_node_below_None)
    with x show False by (simp add: kind_at_def kind_of_def)
  qed
  then show "kind_at (put_node n cp r) x = kind_at r x" by (rule kind_put_other)
qed

lemma ext_put_file:
  assumes "kind_at r cp = KFile"
  shows "ext r (put_node (File c m) cp r)"
  unfolding ext_def
proof (intro allI impI)
  fix x
  assume x: "kind_at r x \<noteq> KNone"
  show "kind_at (put_node (File c m) cp r) x = kind_at r x"
  proof (cases "prefix cp x")
    case False
    then show ?thesis by (rule kind_put_other)
  next
    case True
    then obtain ys where ys: "x = cp @ ys" by (auto simp: prefix_def)
    have "ys = []"
    proof (rule ccontr)
      assume "ys \<noteq> []"
      with assms have "get_node r (cp @ ys) = None" by (intro get_node_below_leaf) auto
      with x ys show False by (simp add: kind_at_def kind_of_def)
    qed
    with ys have xc: "x = cp" by simp
    have "cp = [] \<or> kind_at r (butlast cp) = KDir"
    proof (cases "cp = []")
      case False
      then have "cp = butlast cp @ [last cp]" by simp
      with assms have "kind_at r (butlast cp @ [last cp]) \<noteq> KNone" by simp
      then have "kind_at r (butlast cp) = KDir" by (rule kind_at_parent_dir) simp
      then show ?thesis ..
    qed simp
    then have "get_node (put_node (File c m) cp r) cp = Some (File c m)" by (rule get_put_same)
    with xc assms show ?thesis by (simp add: kind_at_def kind_of_def)
  qed
qed

subsection \<open>Path resolution in an extended tree\<close>

lemma ext_kind: "ext r r' \<Longrightarrow> kind_at r x = k \<Longrightarrow> k \<noteq> KNone \<Longrightarrow> kind_at r' x = k"
  by (auto simp: ext_def)

text \<open>A resolution that ends at an existing node gives the same result in every
  extension of the tree.\<close>

lemma namei_ext:
  "namei fuel r cur cs fl = Inr cp \<Longrightarrow> ext r r' \<Longrightarrow> kind_at r cp \<noteq> KNone
   \<Longrightarrow> namei fuel r' cur cs fl = Inr cp"
proof (induction fuel r cur cs fl rule: namei.induct)
  case (1 fuel r cur follow)
  then show ?case by simp
next
  case (2 fuel r cur c cs follow)
  note e = \<open>ext r r'\<close>
  show ?case
  proof (cases "c = [] \<or> c = ''.'' \<or> c = ''..''")
    case True
    with "2.IH" "2.prems" show ?thesis by auto
  next
    case False
    then have c: "c \<noteq> []" "c \<noteq> ''.''" "c \<noteq> ''..''" by auto
    show ?thesis
    proof (cases "kind_at r (cur @ [c])")
      case KNone
      with "2.prems" c show ?thesis by (auto split: if_splits)
    next
      case KFile
      with e have "kind_at r' (cur @ [c]) = KFile" by (auto dest: ext_kind)
      with KFile "2.prems" c show ?thesis by (auto split: if_splits)
    next
      case KDir
      with e have "kind_at r' (cur @ [c]) = KDir" by (auto dest: ext_kind)
      with KDir "2.IH" "2.prems" c show ?thesis by auto
    next
      case (KLink t)
      with e have k': "kind_at r' (cur @ [c]) = KLink t" by (auto dest: ext_kind)
      show ?thesis
      proof (cases "cs = [] \<and> \<not> follow")
        case True
        with KLink k' "2.prems" c show ?thesis by auto
      next
        case False
        show ?thesis
        proof (cases fuel)
          case 0
          with False KLink "2.prems" c show ?thesis by auto
        next
          case (Suc k)
          from False KLink c "2.prems" Suc
          have rec: "namei k r (if isabs t then [] else cur) (str_split SLASH t @ cs) follow = Inr cp"
            by (auto split: if_splits)
          from "2.IH"(5) [OF c KLink False Suc rec] "2.prems"
          have "namei k r' (if isabs t then [] else cur) (str_split SLASH t @ cs) follow = Inr cp"
            by simp
          with False k' c Suc show ?thesis by auto
        qed
      qed
    qed
  qed
qed

text \<open>A resolution that ends where nothing is gives the same place once a file or a
  directory has been put there, whether or not the last link is followed.\<close>

lemma namei_created:
  "namei fuel r cur cs fl = Inr cp \<Longrightarrow> ext r r' \<Longrightarrow> kind_at r cp = KNone
   \<Longrightarrow> kind_at r' cp = KFile \<or> kind_at r' cp = KDir \<Longrightarrow> fl' \<or> \<not> fl
   \<Longrightarrow> namei fuel r' cur cs fl' = Inr cp"
proof (induction fuel r cur cs fl rule: namei.induct)
  case (1 fuel r cur follow)
  then show ?case by simp
next
  case (2 fuel r cur c cs follow)
  note e = \<open>ext r r'\<close>
  show ?case
  proof (cases "c = [] \<or> c = ''.'' \<or> c = ''..''")
    case True
    with "2.IH" "2.prems" show ?thesis by auto
  next
    case False
    then have c: "c \<noteq> []" "c \<noteq> ''.''" "c \<noteq> ''..''" by auto
    show ?thesis
    proof (cases "kind_at r (cur @ [c])")
      case KNone
      with "2.prems" c show ?thesis by (auto split: if_splits)
    next
      case KFile
      with e have "kind_at r' (cur @ [c]) = KFile" by (auto dest: ext_kind)
      with KFile "2.prems" c show ?thesis by (auto split: if_splits)
    next
      case KDir
      with e have "kind_at r' (cur @ [c]) = KDir" by (auto dest: ext_kind)
      with KDir "2.IH" "2.prems" c show ?thesis by auto
    next
      case (KLink t)
      with e have k': "kind_at r' (cur @ [c]) = KLink t" by (auto dest: ext_kind)
      show ?thesis
      proof (cases "cs = [] \<and> \<not> follow")
        case True
        with KLink k' "2.prems" c show ?thesis by auto
      next
        case False
        show ?thesis
        proof (cases fuel)
          case 0
          with False KLink "2.prems" c show ?thesis by auto
        next
          case (Suc k)
          from False KLink c "2.prems" Suc
          have rec: "namei k r (if isabs t then [] else cur) (str_split SLASH t @ cs) follow = Inr cp"
            by (auto split: if_splits)
          from "2.IH"(5) [OF c KLink False Suc rec] "2.prems"
          have "namei k r' (if isabs t then [] else cur) (str_split SLASH t @ cs) fl' = Inr cp"
            by simp
          with False k' c Suc \<open>fl' \<or> \<not> follow\<close> show ?thesis by auto
        qed
      qed
    qed
  qed
qed

text \<open>Where a resolution ends, there is a node or at least its parent directory.\<close>

lemma namei_parent:
  "namei fuel r cur cs fl = Inr cp \<Longrightarrow> kind_at r cur = KDir
   \<Longrightarrow> kind_at r cp \<noteq> KNone \<or> (cp \<noteq> [] \<and> kind_at r (butlast cp) = KDir)"
proof (induction fuel r cur cs fl rule: namei.induct)
  case (1 fuel r cur follow)
  then show ?case by simp
next
  case (2 fuel r cur c cs follow)
  have bl: "kind_at r (butlast cur) = KDir" using "2.prems" by (simp add: kind_at_butlast_dir)
  have rt: "kind_at r [] = KDir" using "2.prems" by (auto dest: kind_at_root_dir)
  show ?case
  proof (cases "c = [] \<or> c = ''.'' \<or> c = ''..''")
    case True
    with "2.IH" "2.prems" bl show ?thesis by auto
  next
    case False
    then have c: "c \<noteq> []" "c \<noteq> ''.''" "c \<noteq> ''..''" by auto
    show ?thesis
    proof (cases "kind_at r (cur @ [c])")
      case KNone
      with "2.prems" c show ?thesis by (auto split: if_splits)
    next
      case KFile
      with "2.prems" c show ?thesis by (auto split: if_splits)
    next
      case KDir
      with "2.IH" "2.prems" c show ?thesis by auto
    next
      case (KLink t)
      show ?thesis
      proof (cases "cs = [] \<and> \<not> follow")
        case True
        with KLink "2.prems" c show ?thesis by auto
      next
        case False
        show ?thesis
        proof (cases fuel)
          case 0
          with False KLink "2.prems" c show ?thesis by auto
        next
          case (Suc k)
          from False KLink c "2.prems" Suc
          have rec: "namei k r (if isabs t then [] else cur) (str_split SLASH t @ cs) follow = Inr cp"
            by (auto split: if_splits)
          have "kind_at r (if isabs t then [] else cur) = KDir"
            using rt "2.prems" by simp
          from "2.IH"(5) [OF c KLink False Suc rec this] show ?thesis .
        qed
      qed
    qed
  qed
qed

text \<open>Trailing empty components change nothing when the path resolves to a
  directory.\<close>

lemma namei_empties: "namei fuel r cur (replicate k []) fl = Inr cur"
  by (induction k) auto

lemma namei_trailing:
  "namei fuel r cur cs fl = Inr cp \<Longrightarrow> kind_at r cp = KDir
   \<Longrightarrow> namei fuel r cur (cs @ replicate k []) True = Inr cp"
proof (induction fuel r cur cs fl rule: namei.induct)
  case (1 fuel r cur follow)
  then show ?case by (simp add: namei_empties)
next
  case (2 fuel r cur c cs follow)
  show ?case
  proof (cases "c = [] \<or> c = ''.'' \<or> c = ''..''")
    case True
    with "2.IH" "2.prems" show ?thesis by auto
  next
    case False
    then have c: "c \<noteq> []" "c \<noteq> ''.''" "c \<noteq> ''..''" by auto
    show ?thesis
    proof (cases "kind_at r (cur @ [c])")
      case KNone
      with "2.prems" c show ?thesis by (auto split: if_splits)
    next
      case KFile
      with "2.prems" c show ?thesis by (auto split: if_splits)
    next
      case KDir
      with "2.IH" "2.prems" c show ?thesis by auto
    next
      case (KLink t)
      show ?thesis
      proof (cases "cs = [] \<and> \<not> follow")
        case True
        with KLink "2.prems" c show ?thesis by auto
      next
        case False
        show ?thesis
        proof (cases fuel)
          case 0
          with False KLink "2.prems" c show ?thesis by auto
        next
          case (Suc k')
          from False KLink c "2.prems" Suc
          have rec: "namei k' r (if isabs t then [] else cur) (str_split SLASH t @ cs) follow = Inr cp"
            by (auto split: if_splits)
          from "2.IH"(5) [OF c KLink False Suc rec] "2.prems"
          have "namei k' r (if isabs t then [] else cur) (str_split SLASH t @ cs @ replicate k []) True = Inr cp"
            by simp
          moreover from False "2.prems" KLink c have "cs \<noteq> [] \<or> follow" by auto
          ultimately show ?thesis using KLink c Suc rec by (cases follow) (auto split: if_splits)
        qed
      qed
    qed
  qed
qed

subsection \<open>What a call preserves\<close>

text \<open>
  \<open>pres R m\<close>: whatever the call \<open>m\<close> returns or raises, the world it leaves is
  related by \<open>R\<close> to the world it started in. Two relations are used: \<open>grows\<close> (the
  tree is extended and no child process was launched) and \<open>quiet\<close> (in addition the
  working directory is the same).
\<close>

definition pres :: "(world \<Rightarrow> world \<Rightarrow> bool) \<Rightarrow> 'a io \<Rightarrow> bool" where
  "pres R m = (\<forall>w res w'. m w = (res, w') \<longrightarrow> R w w')"








lemma presD: "pres R m \<Longrightarrow> m w = (res, w') \<Longrightarrow> R w w'"
  by (auto simp: pres_def)






lemma pres_except:
  assumes "\<And>a b c. R a b \<Longrightarrow> R b c \<Longrightarrow> R a c" and "pres R m"
    and "\<And>e h. handler e = Some h \<Longrightarrow> pres R h"
  shows "pres R (io_except m handler)"
  unfolding pres_def io_except_def
proof (intro allI impI)
  fix w res w'
  assume a: "(case m w of (Inr x, w') \<Rightarrow> (Inr x, w')
              | (Inl e, w') \<Rightarrow> (case handler e of None \<Rightarrow> (Inl e, w') | Some h \<Rightarrow> h w'))
             = (res, w')"
  obtain r1 w1 where m: "m w = (r1, w1)" by (cases "m w")
  with assms(2) have r1: "R w w1" by (auto dest: presD)
  show "R w w'"
  proof (cases r1)
    case (Inr x)
    with a m r1 show ?thesis by simp
  next
    case (Inl e)
    show ?thesis
    proof (cases "handler e")
      case None
      with Inl a m r1 show ?thesis by simp
    next
      case (Some h)
      with Inl a m have "h w1 = (res, w')" by simp
      with assms(3) [OF Some] have "R w1 w'" by (auto dest: presD)
      with r1 assms(1) show ?thesis by blast
    qed
  qed
qed

lemma pres_finally:
  assumes "\<And>a b c. R a b \<Longrightarrow> R b c \<Longrightarrow> R a c" and "pres R m" and "pres R fin"
  shows "pres R (io_finally m fin)"
  unfolding pres_def io_finally_def
proof (intro allI impI)
  fix w res w'
  assume a: "(case m w of (res, w') \<Rightarrow>
               (case fin w' of (Inl e, w'') \<Rightarrow> (Inl e, w'') | (Inr u, w'') \<Rightarrow> (res, w'')))
             = (res, w')"
  obtain r1 w1 where m: "m w = (r1, w1)" by (cases "m w")
  obtain r2 w2 where f: "fin w1 = (r2, w2)" by (cases "fin w1")
  from m assms(2) have "R w w1" by (auto dest: presD)
  moreover from f assms(3) have "R w1 w2" by (auto dest: presD)
  moreover from a m f have "w' = w2" by (cases r2) auto
  ultimately show "R w w'" using assms(1) by blast
qed



text \<open>The operating-system calls.\<close>

lemma kind_at_None: "get_node r cp = None \<Longrightarrow> kind_at r cp = KNone"
  by (simp add: kind_at_def kind_of_def)

lemma kind_at_File: "get_node r cp = Some (File c m) \<Longrightarrow> kind_at r cp = KFile"
  by (simp add: kind_at_def kind_of_def)

lemma kind_at_Dir: "get_node r cp = Some (Dir es) \<Longrightarrow> kind_at r cp = KDir"
  by (simp add: kind_at_def kind_of_def)











subsection \<open>What the program's functions preserve\<close>







subsection \<open>Absolute paths\<close>

lemma isabs_getcwd: "isabs (getcwd w)"
  by (simp add: isabs_def getcwd_def startswith_def)





subsection \<open>Paths that keep their meaning\<close>

text \<open>A path that names an existing node names the same node after the tree has been
  extended, if the path is absolute or the working directory is the same.\<close>

lemma resolve_ext:
  assumes "resolve fl p w = Inr cp" and "ext (root w) (root w')"
    and "isabs p \<or> cwd w' = cwd w" and "kind_at (root w) cp \<noteq> KNone"
  shows "resolve fl p w' = Inr cp"
proof -
  define start where "start = (if isabs p then [] else cwd w)"
  from assms(3) have s': "(if isabs p then [] else cwd w') = start" by (auto simp: start_def)
  from assms(1) have p: "p \<noteq> []" and k: "kind_at (root w) start = KDir"
    and n: "namei MAXSYMLINKS (root w) start (str_split SLASH p) fl = Inr cp"
    by (auto simp: resolve_def start_def Let_def split: if_splits)
  from k assms(2) have k': "kind_at (root w') start = KDir" by (auto dest: ext_kind)
  from n assms(2,4) have "namei MAXSYMLINKS (root w') start (str_split SLASH p) fl = Inr cp"
    by (rule namei_ext)
  with p k' s' show ?thesis by (simp add: resolve_def Let_def)
qed


lemma isdir_iff: "isdir w p = (\<exists>cp. resolve True p w = Inr cp \<and> kind_at (root w) cp = KDir)"
proof (cases "resolve True p w")
  case (Inl e)
  then show ?thesis by (simp add: isdir_def os_stat_def)
next
  case (Inr cp)
  show ?thesis
  proof (cases "get_node (root w) cp")
    case None
    with Inr show ?thesis by (simp add: isdir_def os_stat_def kind_at_def kind_of_def)
  next
    case (Some n)
    with Inr show ?thesis by (cases n) (simp_all add: isdir_def os_stat_def kind_at_def kind_of_def)
  qed
qed

lemma exists_iff: "exists w p = (\<exists>cp. resolve True p w = Inr cp \<and> kind_at (root w) cp \<noteq> KNone)"
proof (cases "resolve True p w")
  case (Inl e)
  then show ?thesis by (simp add: exists_def os_stat_def)
next
  case (Inr cp)
  show ?thesis
  proof (cases "get_node (root w) cp")
    case None
    with Inr show ?thesis by (simp add: exists_def os_stat_def kind_at_def kind_of_def)
  next
    case (Some n)
    with Inr show ?thesis by (cases n) (simp_all add: exists_def os_stat_def kind_at_def kind_of_def)
  qed
qed

lemma isdir_ext:
  assumes "isdir w p" and "ext (root w) (root w')" and "isabs p \<or> cwd w' = cwd w"
  shows "isdir w' p"
proof -
  from assms(1) obtain cp where r: "resolve True p w = Inr cp" and k: "kind_at (root w) cp = KDir"
    by (auto simp: isdir_iff)
  from k have "kind_at (root w) cp \<noteq> KNone" by simp
  with r assms(2,3) have "resolve True p w' = Inr cp" by (rule resolve_ext)
  moreover from k assms(2) have "kind_at (root w') cp = KDir" by (auto dest: ext_kind)
  ultimately show ?thesis by (auto simp: isdir_iff)
qed


subsection \<open>Sequencing\<close>

lemma io_bind_Inr:
  "io_bind m f w = (Inr y, w'') \<longleftrightarrow> (\<exists>x w'. m w = (Inr x, w') \<and> f x w' = (Inr y, w''))"
  by (cases "m w") (auto simp: io_bind_def split: sum.splits)

lemma io_then_Inr:
  "io_then m k w = (Inr y, w'') \<longleftrightarrow> (\<exists>x w'. m w = (Inr x, w') \<and> k w' = (Inr y, w''))"
  by (simp add: io_then_def io_bind_Inr)

lemma io_return_eq: "io_return x w = (r, w') \<longleftrightarrow> r = Inr x \<and> w' = w"
  by (auto simp: io_return_def)

lemma io_bind_Inl:
  "io_bind m f w = (Inl e, w'') \<longleftrightarrow>
     m w = (Inl e, w'') \<or> (\<exists>x w'. m w = (Inr x, w') \<and> f x w' = (Inl e, w''))"
  by (cases "m w") (auto simp: io_bind_def split: sum.splits)

lemma io_then_Inl:
  "io_then m k w = (Inl e, w'') \<longleftrightarrow>
     m w = (Inl e, w'') \<or> (\<exists>x w'. m w = (Inr x, w') \<and> k w' = (Inl e, w''))"
  by (simp add: io_then_def io_bind_Inl)

lemma pres_lambda: "(\<And>g. pres R (F g)) \<Longrightarrow> pres R (\<lambda>w. F (h w) w)"
  by (auto simp: pres_def)

subsection \<open>Initialization\<close>


lemma io_thenE:
  assumes "io_then m k w = (Inr y, w'')"
  obtains x w' where "m w = (Inr x, w')" and "k w' = (Inr y, w'')"
  using assms by (auto simp: io_then_Inr)

lemma io_bindE:
  assumes "io_bind m f w = (Inr y, w'')"
  obtains x w' where "m w = (Inr x, w')" and "f x w' = (Inr y, w'')"
  using assms by (auto simp: io_bind_Inr)

lemma initialize_Some:
  "self_config self = Some c \<Longrightarrow>
   initialize E self w =
     io_bind (prepare E c (getcwd w) self) (finish_initialize E c (getcwd w)) w"
  by (simp add: initialize_def Let_def)








subsection \<open>Writing to the log file\<close>

lemma get_node_parent:
  assumes "get_node r cp = Some n"
  shows "cp = [] \<or> kind_at r (butlast cp) = KDir"
proof (cases "cp = []")
  case False
  then have "cp = butlast cp @ [last cp]" by simp
  moreover from assms have "kind_at r cp \<noteq> KNone"
    by (cases n) (simp_all add: kind_at_def kind_of_def)
  ultimately have "kind_at r (butlast cp @ [last cp]) \<noteq> KNone" by simp
  then have "kind_at r (butlast cp) = KDir" by (rule kind_at_parent_dir) simp
  then show ?thesis ..
qed simp

lemma file_content_iff:
  "file_content w p = Some c \<longleftrightarrow>
     (\<exists>cp m. resolve True p w = Inr cp \<and> get_node (root w) cp = Some (File c m))"
proof (cases "resolve True p w")
  case (Inl e)
  then show ?thesis by (simp add: file_content_def os_stat_def)
next
  case (Inr cp)
  show ?thesis
  proof (cases "get_node (root w) cp")
    case None
    with Inr show ?thesis by (simp add: file_content_def os_stat_def)
  next
    case (Some n)
    with Inr show ?thesis by (cases n) (auto simp: file_content_def os_stat_def)
  qed
qed

lemma file_content_None_iff:
  "file_content w p = None \<longleftrightarrow>
     (\<forall>cp c m. resolve True p w = Inr cp \<longrightarrow> get_node (root w) cp \<noteq> Some (File c m))"
proof (cases "resolve True p w")
  case (Inl e)
  then show ?thesis by (simp add: file_content_def os_stat_def)
next
  case (Inr cp)
  show ?thesis
  proof (cases "get_node (root w) cp")
    case None
    with Inr show ?thesis by (simp add: file_content_def os_stat_def)
  next
    case (Some n)
    with Inr show ?thesis by (cases n) (auto simp: file_content_def os_stat_def)
  qed
qed

lemma resolve_created:
  assumes "resolve fl p w = Inr cp" and "ext (root w) (root w')"
    and "isabs p \<or> cwd w' = cwd w" and "kind_at (root w) cp = KNone"
    and "kind_at (root w') cp = KFile \<or> kind_at (root w') cp = KDir" and "fl' \<or> \<not> fl"
  shows "resolve fl' p w' = Inr cp"
proof -
  define start where "start = (if isabs p then [] else cwd w)"
  from assms(3) have s': "(if isabs p then [] else cwd w') = start" by (auto simp: start_def)
  from assms(1) have p: "p \<noteq> []" and k: "kind_at (root w) start = KDir"
    and n: "namei MAXSYMLINKS (root w) start (str_split SLASH p) fl = Inr cp"
    by (auto simp: resolve_def start_def Let_def split: if_splits)
  from k assms(2) have k': "kind_at (root w') start = KDir" by (auto dest: ext_kind)
  from n assms(2,4,5,6)
  have "namei MAXSYMLINKS (root w') start (str_split SLASH p) fl' = Inr cp"
    by (rule namei_created)
  with p k' s' show ?thesis by (simp add: resolve_def Let_def)
qed

lemma resolve_parent:
  assumes "resolve fl p w = Inr cp"
  shows "kind_at (root w) cp \<noteq> KNone \<or> (cp \<noteq> [] \<and> kind_at (root w) (butlast cp) = KDir)"
proof -
  define start where "start = (if isabs p then [] else cwd w)"
  from assms have k: "kind_at (root w) start = KDir"
    and n: "namei MAXSYMLINKS (root w) start (str_split SLASH p) fl = Inr cp"
    by (auto simp: resolve_def start_def Let_def split: if_splits)
  from n k show ?thesis by (rule namei_parent)
qed

text \<open>Opening for append: the file is there afterwards, under the same path, with the
  content it had, or empty when it was created.\<close>

lemma open_append_result:
  assumes "open_append E path w = (Inr cp, wa)"
  shows "resolve True path wa = Inr cp
         \<and> (\<exists>m. get_node (root wa) cp
                  = Some (File (case file_content w path of None \<Rightarrow> [] | Some x \<Rightarrow> x) m))
         \<and> cwd wa = cwd w \<and> launched wa = launched w \<and> console wa = console w"
proof -
  have r: "resolve True path w = Inr cp"
  proof (cases "resolve True path w")
    case (Inl e)
    with assms show ?thesis by (simp add: open_append_def)
  next
    case (Inr b)
    with assms have "b = cp"
      by (cases "get_node (root w) b")
         (auto simp: open_append_def split: node.splits)
    with Inr show ?thesis by simp
  qed
  show ?thesis
  proof (cases "get_node (root w) cp")
    case (Some n)
    with assms r obtain c m where n: "n = File c m" and wa: "wa = w"
      by (cases n) (auto simp: open_append_def)
    from r Some n have "file_content w path = Some c" by (auto simp: file_content_iff)
    with r Some n wa show ?thesis by simp
  next
    case None
    with assms r have wa: "wa = w\<lparr>root := put_node (File [] (new_meta E)) cp (root w)\<rparr>"
      by (simp add: open_append_def)
    from r None have fc: "file_content w path = None" by (auto simp: file_content_None_iff)
    from None have kn: "kind_at (root w) cp = KNone" by (rule kind_at_None)
    from resolve_parent [OF r] kn have par: "cp = [] \<or> kind_at (root w) (butlast cp) = KDir"
      by auto
    then have g: "get_node (root wa) cp = Some (File [] (new_meta E))"
      unfolding wa by (simp add: get_put_same)
    then have kf: "kind_at (root wa) cp = KFile" by (rule kind_at_File)
    from kn have e: "ext (root w) (root wa)" unfolding wa by (simp add: ext_put_new)
    have cw: "isabs path \<or> cwd wa = cwd w" by (simp add: wa)
    from kf have "kind_at (root wa) cp = KFile \<or> kind_at (root wa) cp = KDir" ..
    with r e cw kn have "resolve True path wa = Inr cp"
      by (rule resolve_created) simp
    with g fc show ?thesis by (simp add: wa)
  qed
qed

text \<open>Writing through the file object: the bytes are appended, and the file keeps its
  place.\<close>

lemma fd_write_result:
  assumes "get_node (root w) cp = Some (File c m)" and "resolve True path w = Inr cp"
  shows "\<exists>w'. fd_write cp data w = (Inr (), w')
         \<and> resolve True path w' = Inr cp \<and> get_node (root w') cp = Some (File (c @ data) m)
         \<and> cwd w' = cwd w \<and> launched w' = launched w \<and> console w' = console w"
proof -
  define w' where "w' = w\<lparr>root := put_node (File (c @ data) m) cp (root w)\<rparr>"
  from assms(1) have fw: "fd_write cp data w = (Inr (), w')" by (simp add: fd_write_def w'_def)
  from assms(1) have kf: "kind_at (root w) cp = KFile" by (rule kind_at_File)
  then have e: "ext (root w) (root w')" by (simp add: w'_def ext_put_file)
  from kf have kn: "kind_at (root w) cp \<noteq> KNone" by simp
  have "isabs path \<or> cwd w' = cwd w" by (simp add: w'_def)
  with assms(2) e have r: "resolve True path w' = Inr cp" using kn by (rule resolve_ext)
  from get_node_parent [OF assms(1)]
  have "get_node (root w') cp = Some (File (c @ data) m)" by (simp add: w'_def get_put_same)
  with fw r show ?thesis by (auto simp: w'_def)
qed

lemma file_content_cong:
  assumes "root w' = root w" and "cwd w' = cwd w"
  shows "file_content w' p = file_content w p"
proof -
  show ?thesis unfolding file_content_def os_stat_def resolve_def assms ..
qed

lemma echo_result:
  assumes "(if cfg_verbose c then (if truthy col then py_print a else py_print b)
            else io_return ()) w = (r, w')"
  shows "r = Inr () \<and> root w' = root w \<and> cwd w' = cwd w \<and> launched w' = launched w"
  using assms by (auto simp: py_print_def io_return_def split: if_splits)

text \<open>A message that is logged is appended, with a newline, to what the log file held
  (or to nothing, when the log file was not there).\<close>

lemma log_message_appends:
  assumes "self_config self = Some c" and "self_log_filename self = Some fn"
    and "log_message E self msg col w = (Inr (), w')"
  shows "file_content w' fn
           = Some ((case file_content w fn of None \<Rightarrow> [] | Some x \<Rightarrow> x) @ msg @ [NL])
         \<and> cwd w' = cwd w \<and> launched w' = launched w"
proof -
  let ?old = "case file_content w fn of None \<Rightarrow> [] | Some x \<Rightarrow> x"
  let ?echo = "if cfg_verbose c then
                 (if truthy col
                  then py_print ([ESC] @ ''['' @ the col @ ''m'' @ msg @ [ESC] @ ''[0m'')
                  else py_print msg)
               else io_return ()"
  from assms have "io_then (io_bind (open_append E fn) (\<lambda>log_file. fd_write log_file (msg @ [NL])))
                     ?echo w = (Inr (), w')"
    by (simp add: log_message_def)
  then obtain u wb where
    wr: "io_bind (open_append E fn) (\<lambda>log_file. fd_write log_file (msg @ [NL])) w = (Inr u, wb)"
    and ec: "?echo wb = (Inr (), w')"
    by (rule io_thenE)
  from wr obtain cp wa where op: "open_append E fn w = (Inr cp, wa)"
    and fw: "fd_write cp (msg @ [NL]) wa = (Inr u, wb)"
    by (rule io_bindE)
  from open_append_result [OF op] obtain m where
    ra: "resolve True fn wa = Inr cp" and ga: "get_node (root wa) cp = Some (File ?old m)"
    and fa: "cwd wa = cwd w" "launched wa = launched w"
    by auto
  from fd_write_result [OF ga ra, of "msg @ [NL]"] fw
  have rb: "resolve True fn wb = Inr cp"
    and gb: "get_node (root wb) cp = Some (File (?old @ msg @ [NL]) m)"
    and fb: "cwd wb = cwd wa" "launched wb = launched wa"
    by auto
  from rb gb have fcb: "file_content wb fn = Some (?old @ msg @ [NL])"
    by (auto simp: file_content_iff)
  from echo_result [OF ec]
  have e: "root w' = root wb" "cwd w' = cwd wb" "launched w' = launched wb" by auto
  from file_content_cong [OF e(1,2), of fn] fcb
  have "file_content w' fn = Some (?old @ msg @ [NL])" by simp
  with e fa fb show ?thesis by simp
qed


lemma path_join_abs: "isabs b \<Longrightarrow> path_join a b = b"
  by (simp add: path_join_def isabs_def)

lemma setup_workspace_fields:
  assumes "setup_workspace E c d self w = (Inr self2, w2)"
  shows "self_log_filename self2 = self_log_filename self \<and> self_config self2 = self_config self
         \<and> self_command self2 = self_command self"
proof (cases "truthy (self_dir self)")
  case True
  with assms show ?thesis by (auto simp: setup_workspace_def io_then_Inr io_return_eq)
next
  case False
  show ?thesis
  proof (cases "cfg_persist c")
    case True
    with False assms show ?thesis
      by (auto simp: setup_workspace_def Let_def io_then_Inr io_bind_Inr io_return_eq)
  next
    case p: False
    with False assms show ?thesis
      by (auto simp: setup_workspace_def Let_def io_then_Inr io_bind_Inr io_return_eq)
  qed
qed

lemma prepare_fields:
  assumes "prepare E c g self w = (Inr self2, w2)"
  shows "self_log_filename self2 = Some (log_file_name E (resolve_log_dir g c))
         \<and> self_config self2 = self_config self \<and> self_command self2 = self_command self"
proof -
  from assms obtain u w1 where
    "setup_workspace E c (resolve_log_dir g c)
       (self\<lparr>self_log_filename := Some (log_file_name E (resolve_log_dir g c))\<rparr>) w1
     = (Inr self2, w2)"
    unfolding prepare_def Let_def by (rule io_thenE)
  from setup_workspace_fields [OF this] show ?thesis by simp
qed

lemma finish_initialize_result:
  assumes "finish_initialize E c g self w = (Inr self', w')"
  shows "self' = self \<and>
         (\<exists>w3. log_message E self (''Workspace initiated at '' @ the (self_dir self))
                  (Some ''32'') w3 = (Inr (), w'))"
proof -
  from assms obtain u w3 where
    "io_then (log_message E self (''Workspace initiated at '' @ the (self_dir self)) (Some ''32''))
       (io_return self) w3 = (Inr self', w')"
    unfolding finish_initialize_def by (rule io_thenE)
  then obtain v w4 where
    l: "log_message E self (''Workspace initiated at '' @ the (self_dir self)) (Some ''32'') w3
        = (Inr v, w4)"
    and "io_return self w4 = (Inr self', w')"
    by (rule io_thenE)
  then show ?thesis by (auto simp: io_return_eq)
qed

subsection \<open>What \<open>run\<close> writes to the log\<close>



lemma io_bind_step: "m w = (Inr x, w') \<Longrightarrow> io_bind m f w = f x w'"
  by (simp add: io_bind_def)





subsection \<open>A child that succeeds\<close>













subsection \<open>The command line\<close>

text \<open>
  C8. \<open>main\<close> joins the command tokens with single spaces and \<open>run\<close> splits the
  resulting string again with \<open>shlex.split\<close>; the round trip is not the identity. For
  the argument vector \<open>echo\<close>, \<open>a b\<close> the joined string is \<open>echo a b\<close>, which splits
  into three tokens.
\<close>

theorem join_then_split_is_not_identity:
  "command_of_tokens [''echo'', ''a b''] = Inr ''echo a b''
   \<and> shlex_split ''echo a b'' = Inr [''echo'', ''a'', ''b'']
   \<and> shlex_split ''echo a b'' \<noteq> Inr [''echo'', ''a b'']"
  by (simp add: command_of_tokens_def shlex_split_def whitespace_def quotes_def wordchars_def
      at_eof_def BACKSLASH_def SQUOTE_def DQUOTE_def TAB_def CR_def NL_def)

text \<open>
  C9. With no command token at all, \<open>main\<close> raises \<open>IndexError\<close> at
  \<open>args.command[0]\<close>, before anything else happens: the world is as it was.
\<close>

theorem main_without_command_raises_IndexError:
  "main E (a\<lparr>args_command := []\<rparr>) w = (Inl IndexError, w)"
  by (simp add: main_def command_of_tokens_def io_raise_def)

subsection \<open>Staging a directory\<close>

text \<open>\<open>shutil.copy2\<close> copies files only: on a source that is a directory it raises
  and changes nothing.\<close>

lemma copy2_directory_fails:
  assumes "os_stat w src = Inr (Dir es)"
  shows "\<exists>e. shutil_copy2 src dst w = (Inl e, w)"
  using assms by (simp add: shutil_copy2_def Let_def)

text \<open>
  C2. Staging by copy does not work for an artifact that is a directory: with the
  directory \<open>d\<close> as the only artifact and \<open>symlink_to_artifacts\<close> unset, the program
  stops with \<open>IsADirectoryError\<close>; with \<open>symlink_to_artifacts\<close> set, the same
  artifact is staged as a link to \<open>/home/u/d\<close>.
\<close>

theorem staging_directory_by_copy_raises:
  "fst (main (ex_env (ex_child 0 [])) (ex_args\<lparr>args_artifacts := Some [''d'']\<rparr>) ex_world)
     = Inl (IsADirectoryError ''[Errno 21] Is a directory: /home/u/d'')
   \<and> kind_at
        (root (snd (Runner (ex_env (ex_child 0 [])) ''false'' None
                      (Some (config_of_args
                         (ex_args\<lparr>args_artifacts := Some [''d''],
                                  args_symlink_to_artifacts := True\<rparr>))) ex_world)))
        [''tmp'', ''tmpabc'', ''d'']
     = KLink ''/home/u/d''"
  by code_simp

subsection \<open>A child that fails\<close>

text \<open>
  C4. A child that exits with a non-zero code and whose standard error is not UTF-8
  makes \<open>run\<close>, and with it \<open>main\<close>, raise \<open>UnicodeDecodeError\<close>: here the child
  exits with code 1 and writes the single byte \<open>0xFF\<close> to its standard error. With
  the text \<open>boom\<close> on standard error the same run returns normally.
\<close>

theorem failing_child_with_undecodable_stderr_raises:
  "fst (main (ex_env (ex_child 1 [CHR 0xFF])) ex_args ex_world) = Inl UnicodeDecodeError
   \<and> fst (main (ex_env (ex_child 1 ''boom'')) ex_args ex_world) = Inr ()"
  by code_simp

subsection \<open>The working directory\<close>



subsection \<open>Artifacts that are not there\<close>




subsection \<open>The log directory and the log file\<close>

lemma resolve_log_dir_cases:
  "resolve_log_dir (getcwd w) c =
     (case cfg_log_dir c of
        None \<Rightarrow> getcwd w
      | Some None \<Rightarrow> abspath (getcwd w) (path_join (getcwd w) ''work'')
      | Some (Some d) \<Rightarrow> path_join (getcwd w) d)"
  by (simp add: resolve_log_dir_def path_join_abs isabs_getcwd split: option.splits)

text \<open>
  C1, as the claim states it, fails for the command line: \<open>main\<close> always stores the
  key \<open>log_dir\<close>, with the value \<open>None\<close> when \<open>--log-dir\<close> is not given, and
  \<open>initialize\<close> then takes \<open>work\<close> under the working directory. Started in
  \<open>/home/u\<close> without \<open>--log-dir\<close>, the program logs to
  \<open>/home/u/work/run_log_1.5.txt\<close>.
\<close>

theorem log_directory_default_counterexample:
  "getcwd ex_world = ''/home/u''
   \<and> cfg_log_dir (config_of_args ex_args) = Some None
   \<and> resolve_log_dir (getcwd ex_world) (config_of_args ex_args) = ''/home/u/work''
   \<and> resolve_log_dir (getcwd ex_world) (config_of_args ex_args) \<noteq> getcwd ex_world
   \<and> map_sum id self_log_filename
         (fst (Runner (ex_env (ex_child 0 [])) ''false'' None
                 (Some (config_of_args ex_args)) ex_world))
       = Inr (Some ''/home/u/work/run_log_1.5.txt'')"
  by code_simp

text \<open>
  C1, amended. The log directory is the working directory when the configuration has
  no key \<open>log_dir\<close>; it is the normalized path of \<open>work\<close> under the working
  directory when the key is there with the value \<open>None\<close>, as on the command line
  without \<open>--log-dir\<close>; it is the configured value joined onto the working directory
  otherwise. When the constructor returns, the runner's log file name is
  \<open>run_log_<timestamp>.txt\<close> joined onto the log directory, and that path names a
  regular file.
\<close>

theorem log_directory_and_log_file:
  assumes "Runner E command directory (Some c) w = (Inr self', w')"
  shows "resolve_log_dir (getcwd w) c =
           (case cfg_log_dir c of
              None \<Rightarrow> getcwd w
            | Some None \<Rightarrow> abspath (getcwd w) (path_join (getcwd w) ''work'')
            | Some (Some d) \<Rightarrow> path_join (getcwd w) d)
         \<and> self_log_filename self'
             = Some (path_join (resolve_log_dir (getcwd w) c) (''run_log_'' @ time_log E @ ''.txt''))
         \<and> (\<exists>content.
               file_content w'
                 (path_join (resolve_log_dir (getcwd w) c) (''run_log_'' @ time_log E @ ''.txt''))
               = Some content)"
proof -
  let ?self = "\<lparr>self_command = command, self_dir = directory, self_config = Some c,
                self_log_filename = None\<rparr>"
  let ?fn = "path_join (resolve_log_dir (getcwd w) c) (''run_log_'' @ time_log E @ ''.txt'')"
  from assms have "io_bind (prepare E c (getcwd w) ?self) (finish_initialize E c (getcwd w)) w
                   = (Inr self', w')"
    by (simp add: Runner_def initialize_Some)
  then obtain self2 w2 where pr: "prepare E c (getcwd w) ?self w = (Inr self2, w2)"
    and fi: "finish_initialize E c (getcwd w) self2 w2 = (Inr self', w')"
    by (rule io_bindE)
  from prepare_fields [OF pr] have f2: "self_log_filename self2 = Some ?fn"
    and c2: "self_config self2 = Some c"
    by (simp_all add: log_file_name_def)
  from finish_initialize_result [OF fi] obtain w3 where s: "self' = self2"
    and l: "log_message E self2 (''Workspace initiated at '' @ the (self_dir self2))
              (Some ''32'') w3 = (Inr (), w')"
    by auto
  from log_message_appends [OF c2 f2 l] have "\<exists>content. file_content w' ?fn = Some content"
    by simp
  with s f2 show ?thesis by (simp add: resolve_log_dir_cases)
qed

theorem log_directory_and_log_file_witness:
  "resolve_log_dir (getcwd ex_world) (config_of_args ex_args)
     = abspath (getcwd ex_world) (path_join (getcwd ex_world) ''work'')
   \<and> (\<exists>content.
         file_content
           (snd (Runner (ex_env (ex_child 0 [])) ''false'' None
                   (Some (config_of_args ex_args)) ex_world))
           ''/home/u/work/run_log_1.5.txt''
         = Some content)"
proof -
  let ?E = "ex_env (ex_child 0 [])" and ?c = "config_of_args ex_args"
  have ok: "\<not> isl (fst (Runner ?E ''false'' None (Some ?c) ex_world))"
    by code_simp
  obtain r w' where rw: "Runner ?E ''false'' None (Some ?c) ex_world = (r, w')"
    by (cases "Runner ?E ''false'' None (Some ?c) ex_world")
  with ok obtain self' where "r = Inr self'" by (cases r) auto
  with rw have "Runner ?E ''false'' None (Some ?c) ex_world = (Inr self', w')" by simp
  from log_directory_and_log_file [OF this]
  have a: "resolve_log_dir (getcwd ex_world) ?c =
           (case cfg_log_dir ?c of
              None \<Rightarrow> getcwd ex_world
            | Some None \<Rightarrow> abspath (getcwd ex_world) (path_join (getcwd ex_world) ''work'')
            | Some (Some d) \<Rightarrow> path_join (getcwd ex_world) d)"
    and b: "\<exists>content.
               file_content w'
                 (path_join (resolve_log_dir (getcwd ex_world) ?c)
                    (''run_log_'' @ time_log ?E @ ''.txt''))
               = Some content"
    by blast+
  have n: "path_join (resolve_log_dir (getcwd ex_world) ?c) (''run_log_'' @ time_log ?E @ ''.txt'')
           = ''/home/u/work/run_log_1.5.txt''"
    by code_simp
  have k: "cfg_log_dir ?c = Some None" by (simp add: config_of_args_def ex_args_def)
  from a k b n rw show ?thesis by simp
qed

subsection \<open>The reported side effects\<close>






subsection \<open>Checking and creating directories\<close>

definition is_ValueError :: "error \<Rightarrow> bool" where
  "is_ValueError e = (case e of ValueError m \<Rightarrow> True | _ \<Rightarrow> False)"

lemma namei_not_ValueError: "namei fuel r cur cs fl = Inl e \<Longrightarrow> \<not> is_ValueError e"
proof (induction fuel r cur cs fl rule: namei.induct)
  case (1 fuel r cur follow)
  then show ?case by simp
next
  case (2 fuel r cur c cs follow)
  show ?case
  proof (cases "c = [] \<or> c = ''.'' \<or> c = ''..''")
    case True
    with "2.IH" "2.prems" show ?thesis by auto
  next
    case False
    then have c: "c \<noteq> []" "c \<noteq> ''.''" "c \<noteq> ''..''" by auto
    show ?thesis
    proof (cases "kind_at r (cur @ [c])")
      case KNone
      with "2.prems" c show ?thesis
        by (auto simp: is_ValueError_def ENOENT_def split: if_splits)
    next
      case KFile
      with "2.prems" c show ?thesis
        by (auto simp: is_ValueError_def ENOTDIR_def split: if_splits)
    next
      case KDir
      with "2.IH" "2.prems" c show ?thesis by auto
    next
      case (KLink t)
      show ?thesis
      proof (cases "cs = [] \<and> \<not> follow")
        case True
        with KLink "2.prems" c show ?thesis by auto
      next
        case False
        show ?thesis
        proof (cases fuel)
          case 0
          with False KLink "2.prems" c show ?thesis
            by (auto simp: is_ValueError_def ELOOP_def)
        next
          case (Suc k)
          from False KLink c "2.prems" Suc
          have rec: "namei k r (if isabs t then [] else cur) (str_split SLASH t @ cs) follow = Inl e"
            by (auto split: if_splits)
          from "2.IH"(5) [OF c KLink False Suc rec] show ?thesis .
        qed
      qed
    qed
  qed
qed

lemma resolve_not_ValueError: "resolve fl p w = Inl e \<Longrightarrow> \<not> is_ValueError e"
  by (auto simp: resolve_def Let_def is_ValueError_def ENOENT_def
           dest: namei_not_ValueError split: if_splits)

lemma mkdir_not_ValueError: "os_mkdir p w = (Inl e, w') \<Longrightarrow> \<not> is_ValueError e"
proof (cases "resolve False (mkdir_path p) w")
  case (Inl e')
  assume "os_mkdir p w = (Inl e, w')"
  with Inl show ?thesis by (auto simp: os_mkdir_def dest: resolve_not_ValueError)
next
  case (Inr cp)
  assume "os_mkdir p w = (Inl e, w')"
  with Inr show ?thesis
    by (cases "get_node (root w) cp") (auto simp: os_mkdir_def is_ValueError_def EEXIST_def)
qed

lemma makedirs_not_ValueError: "os_makedirs name w = (Inl e, w') \<Longrightarrow> \<not> is_ValueError e"
proof (induction name w arbitrary: e w' rule: os_makedirs.induct)
  case (1 name w)
  show ?case
  proof (cases "snd (makedirs_split name) = [] \<or> fst (makedirs_split name) = []
                \<or> exists w (fst (makedirs_split name))")
    case True
    with "1.prems" have "os_mkdir name w = (Inl e, w')"
      by (subst (asm) os_makedirs.simps) (auto split: if_splits)
    then show ?thesis by (rule mkdir_not_ValueError)
  next
    case False
    obtain r1 w1 where h: "os_makedirs (fst (makedirs_split name)) w = (r1, w1)"
      by (cases "os_makedirs (fst (makedirs_split name)) w")
    have "os_mkdir name w1 = (Inl e, w') \<or> (r1 = Inl e \<and> w' = w1)"
      using "1.prems" False h
      by (subst (asm) os_makedirs.simps)
         (auto split: if_splits sum.splits error.splits)
    then show ?thesis
    proof
      assume "os_mkdir name w1 = (Inl e, w')"
      then show ?thesis by (rule mkdir_not_ValueError)
    next
      assume "r1 = Inl e \<and> w' = w1"
      with h False "1.IH" show ?thesis by auto
    qed
  qed
qed

text \<open>\<open>check_and_create_dir\<close> raises \<open>ValueError\<close> exactly for a path that exists
  and is not a directory, and then with its own message.\<close>

lemma check_and_create_dir_ValueError:
  "(\<exists>e w'. check_and_create_dir d w = (Inl e, w') \<and> is_ValueError e)
     \<longleftrightarrow> (exists w d \<and> \<not> isdir w d)"
proof
  assume "\<exists>e w'. check_and_create_dir d w = (Inl e, w') \<and> is_ValueError e"
  then obtain e w' where a: "check_and_create_dir d w = (Inl e, w')" and v: "is_ValueError e"
    by blast
  show "exists w d \<and> \<not> isdir w d"
  proof (rule ccontr)
    assume n: "\<not> (exists w d \<and> \<not> isdir w d)"
    show False
    proof (cases "exists w d")
      case True
      with n a show False by (simp add: check_and_create_dir_def)
    next
      case False
      with a have "os_makedirs d w = (Inl e, w')" by (simp add: check_and_create_dir_def)
      from makedirs_not_ValueError [OF this] v show False by simp
    qed
  qed
next
  assume "exists w d \<and> \<not> isdir w d"
  then show "\<exists>e w'. check_and_create_dir d w = (Inl e, w') \<and> is_ValueError e"
    by (simp add: check_and_create_dir_def is_ValueError_def)
qed

text \<open>
  C6. \<open>check_and_create_dir\<close> can return without the directory being there:
  \<open>os.makedirs\<close> returns normally, creating nothing, for a path whose last component
  is \<open>.\<close> below a dangling symbolic link. With \<open>l\<close> a link to nothing in the working
  directory and \<open>l/.\<close> as explicit workspace, the constructor returns, and the
  workspace neither exists nor is a directory.
\<close>

theorem workspace_missing_after_construction:
  "\<not> exists ex_link_world ''l/.''
   \<and> check_and_create_dir ''l/.'' ex_link_world = (Inr (), ex_link_world)
   \<and> \<not> isl (fst (Runner (ex_env (ex_child 0 [])) ''true'' (Some ''l/.'')
                     (Some (config_of_args ex_args)) ex_link_world))
   \<and> \<not> isdir (snd (Runner (ex_env (ex_child 0 [])) ''true'' (Some ''l/.'')
                       (Some (config_of_args ex_args)) ex_link_world)) ''l/.''
   \<and> \<not> exists (snd (Runner (ex_env (ex_child 0 [])) ''true'' (Some ''l/.'')
                        (Some (config_of_args ex_args)) ex_link_world)) ''l/.''"
  by code_simp

end
